theory Spec2Isabelle
  imports Main "HOL-Library.Word" "HOL-Library.AList"
begin

unbundle bit_operations_syntax

section \<open>Go values shared by both packages\<close>

text \<open>
  Bytes are 8-bit words and a \<^verbatim>\<open>[]byte\<close> is a list of them. Go's \<^verbatim>\<open>int\<close> is
  modelled by \<^typ>\<open>int\<close> (the code runs on a 64-bit platform and no claim reaches
  the 64-bit boundary); \<^verbatim>\<open>uint32\<close> is \<^typ>\<open>32 word\<close>.
\<close>

type_synonym byte = "8 word"
type_synonym bytes = "byte list"

text \<open>
  Every \<^verbatim>\<open>errors.New\<close> of the two packages is one constructor. The messages:
  \<^item> \<open>ErrInvalidIndex\<close>: "Invalid index. Expected 0 <= i < n"
  \<^item> \<open>ErrInsurerMismatch\<close>: "The long-term public key the Promise recorded as the insurer
    of this shares differs from what is expected"
  \<^item> \<open>ErrBadShare\<close>: "The share failed the public polynomial check."
  \<^item> \<open>ErrNilSignature\<close>: "Nil PromiseSignature"
  \<^item> \<open>ErrUnjustifiedBlame\<close>: "Unjustified blame. The share checks out okay."
  \<^item> \<open>ErrInvalidPromise\<close>: "Invalid t-of-n shares Promise. Expected: t <= r <= n"
  \<^item> \<open>ErrArrayLengths\<close>: "Insurers and secrets array should be of length promise.n"
  \<^item> \<open>ErrValidBlame\<close>: "A valid blame proofs proves this Promise to be uncertified."
  \<^item> \<open>ErrNotEnoughSignatures\<close>: "Not enough signatures yet to be certified"
  \<^item> \<open>ErrBufferTooSmall\<close>: "Buffer size too small"
  \<^item> \<open>ErrWrongIndex\<close>: "vss: verifier got wrong index from deal"
  \<^item> \<open>ErrDealAlreadyProcessed\<close>: the value \<^verbatim>\<open>errDealAlreadyProcessed\<close>,
    "vss: verifier already received a deal"
  \<^item> \<open>ErrInvalidT\<close>: "vss: invalid t received in Deal"
  \<^item> \<open>ErrBadSessionID\<close>: "vss: find different sessionIDs from Deal"
  \<^item> \<open>ErrShareIndexMismatch\<close>: "vss: not the same index for f and g share in Deal"
  \<^item> \<open>ErrDealIndex\<close>: "vss: index out of bounds in Deal"
  \<^item> \<open>ErrShareCommitMismatch\<close>: "vss: share do not verify against commitments in Deal"
  \<^item> \<open>ErrResponseSessionID\<close>: "vss: receiving inconsistent sessionID in response"
  \<^item> \<open>ErrResponseIndex\<close>: "vss: index out of bounds in response"
  \<^item> \<open>ErrJustificationIndex\<close>: "vss: index out of bounds in justification"
  \<^item> \<open>ErrNoComplaint\<close>: "vss: no complaints received for this justification"
  \<^item> \<open>ErrJustifiedApproval\<close>: "vss: justification received for an approval"
  \<^item> \<open>ErrComplaintIndex\<close>: "vss: index out of bounds in Complaint"
  \<^item> \<open>ErrDuplicateResponse\<close>: "vss: already existing response from same origin"
  \<^item> \<open>ErrExternal m\<close>: the error a consumed primitive (signature, proof or codec of
    the suite) returned, passed on unchanged.
\<close>

datatype error =
    ErrInvalidIndex
  | ErrInsurerMismatch
  | ErrBadShare
  | ErrNilSignature
  | ErrUnjustifiedBlame
  | ErrInvalidPromise
  | ErrArrayLengths
  | ErrValidBlame
  | ErrNotEnoughSignatures
  | ErrBufferTooSmall
  | ErrWrongIndex
  | ErrDealAlreadyProcessed
  | ErrInvalidT
  | ErrBadSessionID
  | ErrShareIndexMismatch
  | ErrDealIndex
  | ErrShareCommitMismatch
  | ErrResponseSessionID
  | ErrResponseIndex
  | ErrJustificationIndex
  | ErrNoComplaint
  | ErrJustifiedApproval
  | ErrComplaintIndex
  | ErrDuplicateResponse
  | ErrExternal string

text \<open>
  A panic is not an error value: it unwinds the caller. The explicit panics of the
  source and the run-time panics of indexing and slicing:
  \<^item> \<open>PanicInvalidTRN\<close>: \<^verbatim>\<open>panic("Invalid t, r, and n. Expected t <= r <= n")\<close>
  \<^item> \<open>PanicTwoSuites\<close>: \<^verbatim>\<open>panic("Two different suites used.")\<close>
  \<^item> \<open>PanicBadDH\<close>: \<^verbatim>\<open>panic("Bad shared secret for Diffie-Hellman given.")\<close>
  \<^item> \<open>PanicIndex\<close>: index out of range
  \<^item> \<open>PanicSlice\<close>: slice bounds out of range
  \<^item> \<open>PanicMake\<close>: \<^verbatim>\<open>make\<close> with a negative length
  \<^item> \<open>PanicExternal\<close>: a panic inside a consumed library call
  \<^item> \<open>PanicNil\<close>: a method called through a nil pointer
\<close>

datatype panic =
    PanicInvalidTRN
  | PanicTwoSuites
  | PanicBadDH
  | PanicIndex
  | PanicSlice
  | PanicMake
  | PanicExternal
  | PanicNil

datatype 'a result = is_Ok: Ok 'a | is_Err: Err error | is_Panic: Panic panic

text \<open>\<^verbatim>\<open>xs[i]\<close> for a Go \<^verbatim>\<open>int\<close> index: \<open>None\<close> where Go panics.\<close>

definition go_index :: "'a list \<Rightarrow> int \<Rightarrow> 'a option" where
  "go_index xs i = (if 0 \<le> i \<and> i < int (length xs) then Some (xs ! nat i) else None)"

text \<open>
  \<^verbatim>\<open>binary.LittleEndian\<close> on a \<^verbatim>\<open>uint32\<close> (\<^verbatim>\<open>PutUint32\<close> writes the four
  bytes of \<open>putUint32\<close>; \<^verbatim>\<open>Uint32\<close> reads them and panics on a buffer of fewer than
  four bytes), and the conversions \<^verbatim>\<open>uint32(i)\<close> and \<^verbatim>\<open>int(w)\<close>.
\<close>

definition putUint32 :: "32 word \<Rightarrow> bytes" where
  "putUint32 w = [ucast w, ucast (drop_bit 8 w), ucast (drop_bit 16 w), ucast (drop_bit 24 w)]"

definition uint32_of_int :: "int \<Rightarrow> 32 word" where
  "uint32_of_int i = word_of_int i"

definition int_of_uint32 :: "32 word \<Rightarrow> int" where
  "int_of_uint32 w = uint w"

definition getUint32 :: "bytes \<Rightarrow> 32 word option" where
  "getUint32 b =
     (if length b < 4 then None
      else Some (ucast (b ! 0) OR push_bit 8 (ucast (b ! 1)) OR push_bit 16 (ucast (b ! 2))
                 OR push_bit 24 (ucast (b ! 3))))"

text \<open>
  Sequencing of calls that may return an error or panic, and the error of a
  consumed codec passed on to the caller.
\<close>

definition andThen :: "'a result \<Rightarrow> ('a \<Rightarrow> 'b result) \<Rightarrow> 'b result" where
  "andThen m f = (case m of Ok x \<Rightarrow> f x | Err e \<Rightarrow> Err e | Panic q \<Rightarrow> Panic q)"

definition external :: "string + 'a \<Rightarrow> 'a result" where
  "external x = (case x of Inl m \<Rightarrow> Err (ErrExternal m) | Inr v \<Rightarrow> Ok v)"

section \<open>Package promise\<close>

subsection \<open>The suite and the libraries consumed through it\<close>

text \<open>
  \<^verbatim>\<open>abstract.Suite\<close> is an interface; the packages \<^verbatim>\<open>anon\<close>, \<^verbatim>\<open>proof\<close> and
  \<^verbatim>\<open>poly\<close> are called with the suite as an argument. None of them is part of the
  sources, so each consumed operation is a field of the record below, and a Go
  object that stores a suite stores this record. Points and secrets are compared
  with their \<^verbatim>\<open>Equal\<close> methods in the source and with \<open>=\<close> here.
  \<^item> \<open>PointMul S P s\<close>: \<^verbatim>\<open>S.Point().Mul(P, s)\<close>
  \<^item> \<open>PointMarshalBinary S P\<close>: \<^verbatim>\<open>P.MarshalBinary()\<close>; here and in the other
    codecs \<open>Inl m\<close> is the error with message \<open>m\<close>
  \<^item> \<open>PointUnmarshalBinary S b\<close>: \<^verbatim>\<open>S.Point().UnmarshalBinary(b)\<close>
  \<^item> \<open>CipherPick S b\<close>: \<^verbatim>\<open>S.Secret().Pick(S.Cipher(b))\<close>
  \<^item> \<open>AnonVerify S msg set sig\<close>: the error of
    \<^verbatim>\<open>anon.Verify(S, msg, set, nil, sig)\<close>, \<open>None\<close> for \<^verbatim>\<open>nil\<close>
  \<^item> \<open>HashVerify S name D P pf\<close>: the error of \<^verbatim>\<open>proof.HashVerify(S, name,
    proof.Rep("D","x","P").Verifier(S, {"D": D, "P": P}), pf)\<close>
  \<^item> \<open>PriPolyPick S k s0\<close>: the coefficients of
    \<^verbatim>\<open>new(poly.PriPoly).Pick(S, k, s0, random.Stream)\<close> for one outcome of the random
    stream, \<open>None\<close> where the call panics
  \<^item> \<open>PriShare S pripoly n i\<close>:
    \<^verbatim>\<open>new(poly.PriShares).Split(pripoly, n).Share(i)\<close>
  \<^item> \<open>PubPolyCommit S pripoly\<close>: the \<^verbatim>\<open>poly.PubPoly\<close> after
    \<^verbatim>\<open>Commit(pripoly, nil)\<close>; a public polynomial is its list of commitments
  \<^item> \<open>PubPolyCheck S pub i share\<close>: \<^verbatim>\<open>pub.Check(i, share)\<close>
  \<^item> \<open>PubPolyMarshalSize S pub\<close>: \<^verbatim>\<open>pub.MarshalSize()\<close>
  \<^item> \<open>PubPolyInitSize S k\<close>: \<^verbatim>\<open>MarshalSize()\<close> of a \<^verbatim>\<open>PubPoly\<close> after
    \<^verbatim>\<open>Init(S, k, nil)\<close>
  \<^item> \<open>PubPolyMarshalBinary S pub\<close>: \<^verbatim>\<open>pub.MarshalBinary()\<close>
  \<^item> \<open>PubPolyUnmarshalBinary S k b\<close>: \<^verbatim>\<open>UnmarshalBinary(b)\<close> on a \<^verbatim>\<open>PubPoly\<close>
    after \<^verbatim>\<open>Init(S, k, nil)\<close>
\<close>

record ('pt, 'sc) suite =
  PointLen :: int
  SecretLen :: int
  PointString :: "'pt \<Rightarrow> string"
  PointMul :: "'pt \<Rightarrow> 'sc \<Rightarrow> 'pt"
  PointMarshalBinary :: "'pt \<Rightarrow> string + bytes"
  PointUnmarshalBinary :: "bytes \<Rightarrow> string + 'pt"
  SecretAdd :: "'sc \<Rightarrow> 'sc \<Rightarrow> 'sc"
  SecretSub :: "'sc \<Rightarrow> 'sc \<Rightarrow> 'sc"
  SecretMarshalBinary :: "'sc \<Rightarrow> string + bytes"
  SecretUnmarshalBinary :: "bytes \<Rightarrow> string + 'sc"
  CipherPick :: "bytes \<Rightarrow> 'sc"
  AnonVerify :: "bytes \<Rightarrow> 'pt list \<Rightarrow> bytes \<Rightarrow> string option"
  HashVerify :: "string \<Rightarrow> 'pt \<Rightarrow> 'pt \<Rightarrow> bytes \<Rightarrow> string option"
  PriPolyPick :: "int \<Rightarrow> 'sc \<Rightarrow> 'sc list option"
  PriShare :: "'sc list \<Rightarrow> int \<Rightarrow> int \<Rightarrow> 'sc"
  PubPolyCommit :: "'sc list \<Rightarrow> 'pt list"
  PubPolyCheck :: "'pt list \<Rightarrow> int \<Rightarrow> 'sc \<Rightarrow> bool"
  PubPolyMarshalSize :: "'pt list \<Rightarrow> int"
  PubPolyInitSize :: "int \<Rightarrow> int"
  PubPolyMarshalBinary :: "'pt list \<Rightarrow> string + bytes"
  PubPolyUnmarshalBinary :: "int \<Rightarrow> bytes \<Rightarrow> string + 'pt list"

text \<open>\<^verbatim>\<open>config.KeyPair\<close>.\<close>

record ('pt, 'sc) KeyPair =
  Suite :: "('pt, 'sc) suite"
  Public :: "'pt"
  Secret :: "'sc"

definition protocolName :: string where
  "protocolName = ''Promise Protocol''"

definition bytes_of :: "string \<Rightarrow> bytes" where
  "bytes_of s = map (\<lambda>c. word_of_nat (of_char c)) s"

definition sigMsg :: bytes where
  "sigMsg = bytes_of ''Promise Signature''"

definition sigBlameMsg :: bytes where
  "sigBlameMsg = bytes_of ''Promise Blame Signature''"

subsection \<open>Promise, PromiseSignature, BlameProof\<close>

text \<open>
  The fields \<^verbatim>\<open>id, suite, t, r, n\<close> of \<^verbatim>\<open>Promise\<close> carry the prefix \<open>p_\<close>.
\<close>

record ('pt, 'sc) Promise =
  p_id :: string
  p_suite :: "('pt, 'sc) suite"
  p_t :: int
  p_r :: int
  p_n :: int
  pubKey :: "'pt"
  pubPoly :: "'pt list"
  insurers :: "'pt list"
  secrets :: "'sc list"

text \<open>
  \<^verbatim>\<open>signature []byte\<close> may be \<^verbatim>\<open>nil\<close>, which \<^verbatim>\<open>verifySignature\<close> tests and
  \<^verbatim>\<open>reflect.DeepEqual\<close> tells from an empty slice: \<open>None\<close> is \<^verbatim>\<open>nil\<close>.
\<close>

record ('pt, 'sc) PromiseSignature =
  sig_suite :: "('pt, 'sc) suite"
  signature :: "bytes option"

record ('pt, 'sc) BlameProof =
  bp_suite :: "('pt, 'sc) suite"
  diffieKey :: "'pt"
  diffieKeyProof :: "bytes option"
  bp_signature :: "('pt, 'sc) PromiseSignature"

text \<open>\<^verbatim>\<open>len\<close> of a slice that may be \<^verbatim>\<open>nil\<close>, and its elements.\<close>

definition slice_len :: "bytes option \<Rightarrow> int" where
  "slice_len s = (case s of None \<Rightarrow> 0 | Some b \<Rightarrow> int (length b))"

definition slice_bytes :: "bytes option \<Rightarrow> bytes" where
  "slice_bytes s = (case s of None \<Rightarrow> [] | Some b \<Rightarrow> b)"

subsection \<open>Construction\<close>

definition diffieHellmanSecret :: "('pt, 'sc) suite \<Rightarrow> 'pt \<Rightarrow> 'sc result" where
  "diffieHellmanSecret S diffieBase =
     (case PointMarshalBinary S diffieBase of
        Inl m \<Rightarrow> Panic PanicBadDH
      | Inr buff \<Rightarrow> Ok (CipherPick S buff))"

text \<open>
  The loop of \<^verbatim>\<open>ConstructPromise\<close> that fills \<^verbatim>\<open>p.secrets[i]\<close> for
  \<open>i = 0, ..., n - 1\<close>. \<^verbatim>\<open>p.secrets\<close> was made with \<open>n\<close> nil entries; \<open>acc\<close> is
  the prefix assigned so far (the entries after it are never read).
\<close>

function encryptShares ::
  "('pt, 'sc) suite \<Rightarrow> 'pt list \<Rightarrow> 'sc \<Rightarrow> 'sc list \<Rightarrow> int \<Rightarrow> int \<Rightarrow> 'sc list \<Rightarrow> 'sc list result"
where
  "encryptShares S ins longSecret pripoly n i acc =
     (if i < n then
        (case go_index ins i of
           None \<Rightarrow> Panic PanicIndex
         | Some insurer \<Rightarrow>
             (case diffieHellmanSecret S (PointMul S insurer longSecret) of
                Ok diffieSecret \<Rightarrow>
                  encryptShares S ins longSecret pripoly n (i + 1)
                    (acc @ [SecretAdd S (PriShare S pripoly n i) diffieSecret])
              | Err e \<Rightarrow> Err e
              | Panic q \<Rightarrow> Panic q))
      else Ok acc)"
  by pat_completeness auto
termination
  by (relation "measure (\<lambda>(S, ins, longSecret, pripoly, n, i, acc). nat (n - i))") auto

declare encryptShares.simps [simp del]

text \<open>
  \<^verbatim>\<open>ConstructPromise\<close> has no error result: it returns the Promise or panics. The
  receiver's fields are assigned before the parameters are checked; the model
  returns the finished receiver.
\<close>

definition ConstructPromise ::
  "('pt, 'sc) KeyPair \<Rightarrow> ('pt, 'sc) KeyPair \<Rightarrow> int \<Rightarrow> int \<Rightarrow> 'pt list \<Rightarrow> ('pt, 'sc) Promise result"
where
  "ConstructPromise secretPair longPair t r ins =
     (let n = int (length ins); S = Suite secretPair in
      if \<not> (t \<le> r \<and> r \<le> n) then Panic PanicInvalidTRN
      else if Suite longPair \<noteq> Suite secretPair then Panic PanicTwoSuites
      else
        (case PriPolyPick S t (Secret secretPair) of
           None \<Rightarrow> Panic PanicExternal
         | Some pripoly \<Rightarrow>
             (case encryptShares S ins (Secret longPair) pripoly n 0 [] of
                Ok secs \<Rightarrow>
                  Ok \<lparr> p_id = PointString S (Public secretPair), p_suite = S,
                       p_t = t, p_r = r, p_n = n, pubKey = Public longPair,
                       pubPoly = PubPolyCommit S pripoly, insurers = ins,
                       secrets = secs \<rparr>
              | Err e \<Rightarrow> Err e
              | Panic q \<Rightarrow> Panic q)))"

definition verifyPromise :: "('pt, 'sc) Promise \<Rightarrow> unit result" where
  "verifyPromise p =
     (if p_t p > p_n p \<or> p_t p > p_r p \<or> p_r p > p_n p then Err ErrInvalidPromise
      else if int (length (insurers p)) \<noteq> p_n p \<or> int (length (secrets p)) \<noteq> p_n p
      then Err ErrArrayLengths
      else Ok ())"

subsection \<open>Shares, signatures and blame\<close>

definition VerifyShare :: "('pt, 'sc) Promise \<Rightarrow> int \<Rightarrow> ('pt, 'sc) KeyPair \<Rightarrow> unit result" where
  "VerifyShare p i gKeyPair =
     (if i < 0 \<or> i \<ge> p_n p then Err ErrInvalidIndex
      else
        (case go_index (insurers p) i of
           None \<Rightarrow> Panic PanicIndex
         | Some insurer \<Rightarrow>
             if insurer \<noteq> Public gKeyPair then Err ErrInsurerMismatch
             else
               (case diffieHellmanSecret (p_suite p)
                       (PointMul (p_suite p) (pubKey p) (Secret gKeyPair)) of
                  Ok diffieSecret \<Rightarrow>
                    (case go_index (secrets p) i of
                       None \<Rightarrow> Panic PanicIndex
                     | Some sec \<Rightarrow>
                         if \<not> PubPolyCheck (p_suite p) (pubPoly p) i
                                (SecretSub (p_suite p) sec diffieSecret)
                         then Err ErrBadShare
                         else Ok ())
                | Err e \<Rightarrow> Err e
                | Panic q \<Rightarrow> Panic q)))"

definition verifySignature ::
  "('pt, 'sc) Promise \<Rightarrow> int \<Rightarrow> ('pt, 'sc) PromiseSignature \<Rightarrow> bytes \<Rightarrow> unit result"
where
  "verifySignature p i sg msg =
     (if i < 0 \<or> i \<ge> p_n p then Err ErrInvalidIndex
      else
        (case signature sg of
           None \<Rightarrow> Err ErrNilSignature
         | Some sigbytes \<Rightarrow>
             (case go_index (insurers p) i of
                None \<Rightarrow> Panic PanicIndex
              | Some insurer \<Rightarrow>
                  (case AnonVerify (sig_suite sg) msg [insurer] sigbytes of
                     None \<Rightarrow> Ok ()
                   | Some m \<Rightarrow> Err (ErrExternal m)))))"

definition VerifySignature ::
  "('pt, 'sc) Promise \<Rightarrow> int \<Rightarrow> ('pt, 'sc) PromiseSignature \<Rightarrow> unit result"
where
  "VerifySignature p i sg = verifySignature p i sg sigMsg"

definition RevealShare :: "('pt, 'sc) Promise \<Rightarrow> int \<Rightarrow> ('pt, 'sc) KeyPair \<Rightarrow> 'sc result" where
  "RevealShare p i gKeyPair =
     (case diffieHellmanSecret (p_suite p)
             (PointMul (p_suite p) (pubKey p) (Secret gKeyPair)) of
        Ok diffieSecret \<Rightarrow>
          (case go_index (secrets p) i of
             None \<Rightarrow> Panic PanicIndex
           | Some sec \<Rightarrow> Ok (SecretSub (p_suite p) sec diffieSecret))
      | Err e \<Rightarrow> Err e
      | Panic q \<Rightarrow> Panic q)"

definition VerifyRevealedShare :: "('pt, 'sc) Promise \<Rightarrow> int \<Rightarrow> 'sc \<Rightarrow> unit result" where
  "VerifyRevealedShare p i share =
     (if i < 0 \<or> i \<ge> p_n p then Err ErrInvalidIndex
      else if \<not> PubPolyCheck (p_suite p) (pubPoly p) i share then Err ErrBadShare
      else Ok ())"

definition VerifyBlame :: "('pt, 'sc) Promise \<Rightarrow> int \<Rightarrow> ('pt, 'sc) BlameProof \<Rightarrow> unit result" where
  "VerifyBlame p i blameProof =
     (if i < 0 \<or> i \<ge> p_n p then Err ErrInvalidIndex
      else
        (case verifySignature p i (bp_signature blameProof) sigBlameMsg of
           Err e \<Rightarrow> Err e
         | Panic q \<Rightarrow> Panic q
         | Ok u \<Rightarrow>
             (case HashVerify (p_suite p) protocolName (diffieKey blameProof) (pubKey p)
                     (slice_bytes (diffieKeyProof blameProof)) of
                Some m \<Rightarrow> Err (ErrExternal m)
              | None \<Rightarrow>
                  (case diffieHellmanSecret (p_suite p) (diffieKey blameProof) of
                     Ok diffieSecret \<Rightarrow>
                       (case go_index (secrets p) i of
                          None \<Rightarrow> Panic PanicIndex
                        | Some sec \<Rightarrow>
                            if PubPolyCheck (p_suite p) (pubPoly p) i
                                 (SecretSub (p_suite p) sec diffieSecret)
                            then Err ErrUnjustifiedBlame
                            else Ok ())
                   | Err e \<Rightarrow> Err e
                   | Panic q \<Rightarrow> Panic q))))"

subsection \<open>PromiseState\<close>

text \<open>
  \<^verbatim>\<open>PriShares\<close> is a \<^verbatim>\<open>poly.PriShares\<close>: one optional share per insurer.
  \<^verbatim>\<open>signatures\<close> and \<^verbatim>\<open>blames\<close> hold pointers, \<open>None\<close> for \<^verbatim>\<open>nil\<close>.
\<close>


record ('pt, 'sc) PromiseState =
  ps_Promise :: "('pt, 'sc) Promise"
  PriShares :: "'sc option list"
  signatures :: "('pt, 'sc) PromiseSignature option list"
  blames :: "('pt, 'sc) BlameProof option list"

definition Init :: "('pt, 'sc) Promise \<Rightarrow> ('pt, 'sc) PromiseState result" where
  "Init promise =
     (if p_n promise < 0 then Panic PanicMake
      else Ok \<lparr> ps_Promise = promise,
                PriShares = replicate (nat (p_n promise)) None,
                signatures = replicate (nat (p_n promise)) None,
                blames = replicate (nat (p_n promise)) None \<rparr>)"

definition AddSignature ::
  "('pt, 'sc) PromiseState \<Rightarrow> int \<Rightarrow> ('pt, 'sc) PromiseSignature \<Rightarrow> ('pt, 'sc) PromiseState result"
where
  "AddSignature ps i sg =
     (if 0 \<le> i \<and> i < int (length (signatures ps))
      then Ok (ps\<lparr>signatures := (signatures ps)[nat i := Some sg]\<rparr>)
      else Panic PanicIndex)"

definition AddBlameProof ::
  "('pt, 'sc) PromiseState \<Rightarrow> int \<Rightarrow> ('pt, 'sc) BlameProof \<Rightarrow> ('pt, 'sc) PromiseState result"
where
  "AddBlameProof ps i bproof =
     (if 0 \<le> i \<and> i < int (length (blames ps))
      then Ok (ps\<lparr>blames := (blames ps)[nat i := Some bproof]\<rparr>)
      else Panic PanicIndex)"

function certifyLoop :: "('pt, 'sc) PromiseState \<Rightarrow> int \<Rightarrow> int \<Rightarrow> unit result" where
  "certifyLoop ps i validSigs =
     (if i < p_n (ps_Promise ps) then
        (case go_index (signatures ps) i of
           None \<Rightarrow> Panic PanicIndex
         | Some sg \<Rightarrow>
             (case (case sg of
                      None \<Rightarrow> Ok validSigs
                    | Some s \<Rightarrow>
                        (case VerifySignature (ps_Promise ps) i s of
                           Ok u \<Rightarrow> Ok (validSigs + 1)
                         | Err e \<Rightarrow> Ok validSigs
                         | Panic q \<Rightarrow> Panic q)) of
                Panic q \<Rightarrow> Panic q
              | Err e \<Rightarrow> Err e
              | Ok vs \<Rightarrow>
                  (case go_index (blames ps) i of
                     None \<Rightarrow> Panic PanicIndex
                   | Some bl \<Rightarrow>
                       (case bl of
                          None \<Rightarrow> certifyLoop ps (i + 1) vs
                        | Some b \<Rightarrow>
                            (case VerifyBlame (ps_Promise ps) i b of
                               Ok u \<Rightarrow> Err ErrValidBlame
                             | Err e \<Rightarrow> certifyLoop ps (i + 1) vs
                             | Panic q \<Rightarrow> Panic q)))))
      else if validSigs < p_r (ps_Promise ps) then Err ErrNotEnoughSignatures
      else Ok ())"
  by pat_completeness auto
termination
  by (relation "measure (\<lambda>(ps, i, validSigs). nat (p_n (ps_Promise ps) - i))") auto

declare certifyLoop.simps [simp del]

definition PromiseCertified :: "('pt, 'sc) PromiseState \<Rightarrow> unit result" where
  "PromiseCertified ps =
     (case verifyPromise (ps_Promise ps) of
        Err e \<Rightarrow> Err e
      | Panic q \<Rightarrow> Panic q
      | Ok u \<Rightarrow> certifyLoop ps 0 0)"

definition validBlame :: "('pt, 'sc) PromiseState \<Rightarrow> int \<Rightarrow> bool" where
  "validBlame ps j =
     (case go_index (blames ps) j of
        Some (Some b) \<Rightarrow> VerifyBlame (ps_Promise ps) j b = Ok ()
      | _ \<Rightarrow> False)"

definition validSignature :: "('pt, 'sc) PromiseState \<Rightarrow> int \<Rightarrow> bool" where
  "validSignature ps i =
     (case go_index (signatures ps) i of
        Some (Some s) \<Rightarrow> VerifySignature (ps_Promise ps) i s = Ok ()
      | _ \<Rightarrow> False)"

definition countValidSignatures :: "('pt, 'sc) PromiseState \<Rightarrow> int" where
  "countValidSignatures ps =
     int (length (filter (validSignature ps) (map int [0 ..< nat (p_n (ps_Promise ps))])))"


section \<open>Package vss\<close>

subsection \<open>The suite and the libraries consumed through it\<close>

text \<open>
  The operations of \<^verbatim>\<open>abstract.Suite\<close>, \<^verbatim>\<open>sign\<close> and \<^verbatim>\<open>share\<close> that the
  package calls; none is part of the sources.
  \<^item> \<open>Hash S b\<close>: \<^verbatim>\<open>h.Sum(nil)\<close> of \<^verbatim>\<open>h := S.Hash()\<close> after the bytes \<open>b\<close>
    were written to \<open>h\<close>
  \<^item> \<open>PointMarshal S P\<close>, \<open>ScalarMarshal S s\<close>: the bytes \<^verbatim>\<open>MarshalTo\<close> writes
  \<^item> \<open>WriteInt S i\<close>: the bytes \<^verbatim>\<open>binary.Write(&buf, binary.LittleEndian, i)\<close>
    appends for a value of the Go type \<^verbatim>\<open>int\<close>
  \<^item> \<open>BaseMul S s\<close>: \<^verbatim>\<open>S.Point().Base().Mul(nil, s)\<close>
  \<^item> \<open>Mul S P s\<close>: \<^verbatim>\<open>S.Point().Mul(P, s)\<close>; \<open>Add S P Q\<close>: \<^verbatim>\<open>S.Point().Add(P, Q)\<close>
  \<^item> \<open>PickPoint S digest\<close>: \<^verbatim>\<open>S.Point().Pick(nil, S.Cipher(digest))\<close>
  \<^item> \<open>Schnorr S x msg\<close>: \<^verbatim>\<open>sign.Schnorr(S, x, msg)\<close> for one outcome of its
    randomness, \<open>Inl m\<close> for an error
  \<^item> \<open>VerifySchnorr S P msg sig\<close>: the error of \<^verbatim>\<open>sign.VerifySchnorr(S, P, msg, sig)\<close>,
    \<open>None\<close> for \<^verbatim>\<open>nil\<close>
  \<^item> \<open>PubPolyEval S commits i\<close>: \<^verbatim>\<open>share.NewPubPoly(S, nil, commits).Eval(i).V\<close>
\<close>

record ('pt, 'sc) vss_suite =
  Hash :: "bytes \<Rightarrow> bytes"
  PointMarshal :: "'pt \<Rightarrow> bytes"
  ScalarMarshal :: "'sc \<Rightarrow> bytes"
  WriteInt :: "int \<Rightarrow> bytes"
  BaseMul :: "'sc \<Rightarrow> 'pt"
  Mul :: "'pt \<Rightarrow> 'sc \<Rightarrow> 'pt"
  Add :: "'pt \<Rightarrow> 'pt \<Rightarrow> 'pt"
  PickPoint :: "bytes \<Rightarrow> 'pt"
  Schnorr :: "'sc \<Rightarrow> bytes \<Rightarrow> string + bytes"
  VerifySchnorr :: "'pt \<Rightarrow> bytes \<Rightarrow> bytes \<Rightarrow> string option"
  PubPolyEval :: "'pt list \<Rightarrow> int \<Rightarrow> 'pt"

subsection \<open>Messages and state\<close>

text \<open>
  \<^verbatim>\<open>share.PriShare\<close> with its fields \<^verbatim>\<open>I\<close> and \<^verbatim>\<open>V\<close>. The fields
  \<^verbatim>\<open>SessionID\<close>, \<^verbatim>\<open>Index\<close>, \<^verbatim>\<open>Status\<close>, \<^verbatim>\<open>Signature\<close>, \<^verbatim>\<open>T\<close> and
  \<^verbatim>\<open>Deal\<close> carry the prefix of their struct (\<open>d_\<close>, \<open>r_\<close>, \<open>j_\<close>), those of
  the aggregator \<open>a_\<close> and those of the Verifier \<open>v_\<close>. Messages are held by value:
  a message with a nil share or deal pointer is outside the model.
\<close>

record 'sc PriShare =
  share_I :: int
  share_V :: "'sc"

record ('pt, 'sc) Deal =
  d_SessionID :: bytes
  SecShare :: "'sc PriShare"
  RndShare :: "'sc PriShare"
  d_T :: "32 word"
  Commitments :: "'pt list"
  d_Signature :: bytes

record Response =
  r_SessionID :: bytes
  r_Index :: "32 word"
  r_Status :: byte
  r_Signature :: bytes

definition StatusComplaint :: byte where "StatusComplaint = 0"
definition StatusApproval :: byte where "StatusApproval = 1"
definition statusJustified :: byte where "statusJustified = 2"

record ('pt, 'sc) Justification =
  j_SessionID :: bytes
  j_Index :: "32 word"
  j_Deal :: "('pt, 'sc) Deal"
  j_Signature :: bytes

text \<open>
  \<^verbatim>\<open>responses\<close> is a Go map from the index to the one response stored for it: an
  association list whose keys are distinct (\<^verbatim>\<open>addResponse\<close> inserts only an
  absent key), read with \<open>map_of\<close>. The loops over the map count entries, so the
  order of iteration does not matter.
\<close>

record ('pt, 'sc) aggregator =
  a_suite :: "('pt, 'sc) vss_suite"
  a_dealer :: "'pt"
  a_verifiers :: "'pt list"
  a_commits :: "'pt list"
  a_responses :: "(32 word \<times> Response) list"
  a_sid :: bytes
  a_deal :: "('pt, 'sc) Deal option"
  a_t :: int
  a_badDealer :: bool

record ('pt, 'sc) Verifier =
  v_suite :: "('pt, 'sc) vss_suite"
  v_longterm :: "'sc"
  v_pub :: "'pt"
  v_dealer :: "'pt"
  v_index :: int
  v_verifiers :: "'pt list"
  v_aggregator :: "('pt, 'sc) aggregator option"

subsection \<open>Helpers\<close>

text \<open>
  \<^verbatim>\<open>validT\<close>, \<^verbatim>\<open>deriveH\<close>, \<^verbatim>\<open>findPub\<close>, \<^verbatim>\<open>sessionID\<close> (which never returns
  an error), the signed message bodies and \<^verbatim>\<open>newAggregator\<close>. A hash or a buffer
  that is written piece by piece is given the concatenation of the pieces.
\<close>

definition validT :: "int \<Rightarrow> 'pt list \<Rightarrow> bool" where
  "validT t verifiers \<longleftrightarrow>
     t \<ge> 2 \<and> t \<le> int (length verifiers) \<and> int_of_uint32 (uint32_of_int t) = t"

definition deriveH :: "('pt, 'sc) vss_suite \<Rightarrow> 'pt list \<Rightarrow> 'pt" where
  "deriveH S verifiers = PickPoint S (Hash S (concat (map (PointMarshal S) verifiers)))"

definition findPub :: "'pt list \<Rightarrow> 32 word \<Rightarrow> 'pt option" where
  "findPub verifiers idx =
     (let iidx = int_of_uint32 idx in
      if iidx \<ge> int (length verifiers) then None else Some (verifiers ! nat iidx))"

definition sessionID ::
  "('pt, 'sc) vss_suite \<Rightarrow> 'pt \<Rightarrow> 'pt list \<Rightarrow> 'pt list \<Rightarrow> int \<Rightarrow> bytes"
where
  "sessionID S dealer verifiers commitments t =
     Hash S (PointMarshal S dealer @ concat (map (PointMarshal S) verifiers)
             @ concat (map (PointMarshal S) commitments) @ putUint32 (uint32_of_int t))"

definition msgResponse :: "Response \<Rightarrow> bytes" where
  "msgResponse r =
     bytes_of ''response'' @ r_SessionID r @ putUint32 (r_Index r) @ [r_Status r]"

definition msgDeal :: "('pt, 'sc) vss_suite \<Rightarrow> ('pt, 'sc) Deal \<Rightarrow> bytes" where
  "msgDeal S d =
     bytes_of ''deal'' @ d_SessionID d
       @ WriteInt S (share_I (SecShare d)) @ ScalarMarshal S (share_V (SecShare d))
       @ WriteInt S (share_I (RndShare d)) @ ScalarMarshal S (share_V (RndShare d))"

definition newAggregator ::
  "('pt, 'sc) vss_suite \<Rightarrow> 'pt \<Rightarrow> 'pt list \<Rightarrow> 'pt list \<Rightarrow> int \<Rightarrow> bytes \<Rightarrow> ('pt, 'sc) aggregator"
where
  "newAggregator S dealer verifiers commitments t sid =
     \<lparr> a_suite = S, a_dealer = dealer, a_verifiers = verifiers, a_commits = commitments,
       a_responses = [], a_sid = sid, a_deal = None, a_t = t, a_badDealer = False \<rparr>"

subsection \<open>The aggregator\<close>

text \<open>The block \<^verbatim>\<open>if a.deal == nil { ... }\<close> of \<^verbatim>\<open>VerifyDeal\<close>.\<close>

definition bindDeal :: "('pt, 'sc) aggregator \<Rightarrow> ('pt, 'sc) Deal \<Rightarrow> ('pt, 'sc) aggregator" where
  "bindDeal a d =
     (if a_deal a = None
      then a \<lparr> a_commits := Commitments d, a_sid := d_SessionID d, a_deal := Some d \<rparr>
      else a)"

text \<open>
  The operations of the aggregator return their error (\<open>None\<close> for \<^verbatim>\<open>nil\<close>) and the
  aggregator as they leave it.
\<close>

definition VerifyDeal ::
  "('pt, 'sc) aggregator \<Rightarrow> ('pt, 'sc) Deal \<Rightarrow> bool \<Rightarrow> error option \<times> ('pt, 'sc) aggregator"
where
  "VerifyDeal a0 d inclusion =
     (if a_deal a0 \<noteq> None \<and> inclusion then (Some ErrDealAlreadyProcessed, a0)
      else
        (let a = bindDeal a0 d in
         if \<not> validT (int_of_uint32 (d_T d)) (a_verifiers a) then (Some ErrInvalidT, a)
         else if a_sid a \<noteq> d_SessionID d then (Some ErrBadSessionID, a)
         else
           (case VerifySchnorr (a_suite a) (a_dealer a) (msgDeal (a_suite a) d) (d_Signature d) of
              Some m \<Rightarrow> (Some (ErrExternal m), a)
            | None \<Rightarrow>
                (let fi = SecShare d; gi = RndShare d in
                 if share_I fi \<noteq> share_I gi then (Some ErrShareIndexMismatch, a)
                 else if share_I fi < 0 \<or> share_I fi \<ge> int (length (a_verifiers a))
                 then (Some ErrDealIndex, a)
                 else
                   (let fig = BaseMul (a_suite a) (share_V fi);
                        H = deriveH (a_suite a) (a_verifiers a);
                        gih = Mul (a_suite a) H (share_V gi);
                        ci = Add (a_suite a) fig gih;
                        pubShare = PubPolyEval (a_suite a) (Commitments d) (share_I fi)
                    in if ci \<noteq> pubShare then (Some ErrShareCommitMismatch, a)
                       else (None, a))))))"

definition addResponse ::
  "('pt, 'sc) aggregator \<Rightarrow> Response \<Rightarrow> error option \<times> ('pt, 'sc) aggregator"
where
  "addResponse a r =
     (case findPub (a_verifiers a) (r_Index r) of
        None \<Rightarrow> (Some ErrComplaintIndex, a)
      | Some pub \<Rightarrow>
          (case map_of (a_responses a) (r_Index r) of
             Some old \<Rightarrow> (Some ErrDuplicateResponse, a)
           | None \<Rightarrow> (None, a \<lparr> a_responses := (r_Index r, r) # a_responses a \<rparr>)))"

definition verifyResponse ::
  "('pt, 'sc) aggregator \<Rightarrow> Response \<Rightarrow> error option \<times> ('pt, 'sc) aggregator"
where
  "verifyResponse a r =
     (if r_SessionID r \<noteq> a_sid a then (Some ErrResponseSessionID, a)
      else
        (case findPub (a_verifiers a) (r_Index r) of
           None \<Rightarrow> (Some ErrResponseIndex, a)
         | Some pub \<Rightarrow>
             (case VerifySchnorr (a_suite a) pub (msgResponse r) (r_Signature r) of
                Some m \<Rightarrow> (Some (ErrExternal m), a)
              | None \<Rightarrow> addResponse a r)))"

definition verifyJustification ::
  "('pt, 'sc) aggregator \<Rightarrow> ('pt, 'sc) Justification \<Rightarrow> error option \<times> ('pt, 'sc) aggregator"
where
  "verifyJustification a j =
     (case findPub (a_verifiers a) (j_Index j) of
        None \<Rightarrow> (Some ErrJustificationIndex, a)
      | Some pub \<Rightarrow>
          (case map_of (a_responses a) (j_Index j) of
             None \<Rightarrow> (Some ErrNoComplaint, a)
           | Some r \<Rightarrow>
               if r_Status r \<noteq> StatusComplaint then (Some ErrJustifiedApproval, a)
               else
                 (case VerifyDeal a (j_Deal j) False of
                    (Some e, a') \<Rightarrow> (Some e, a' \<lparr> a_badDealer := True \<rparr>)
                  | (None, a') \<Rightarrow>
                      (None, a' \<lparr> a_responses :=
                                    AList.update (j_Index j) (r \<lparr> r_Status := statusJustified \<rparr>)
                                      (a_responses a') \<rparr>))))"

definition EnoughApprovals :: "('pt, 'sc) aggregator \<Rightarrow> bool" where
  "EnoughApprovals a =
     (let app = foldl (\<lambda>app (idx, r). if r_Status r = StatusApproval then app + 1 else app)
                  (0 :: int) (a_responses a)
      in app \<ge> a_t a)"

definition DealCertified :: "('pt, 'sc) aggregator \<Rightarrow> bool" where
  "DealCertified a =
     (let comps = foldl (\<lambda>comps (idx, r). if r_Status r = StatusComplaint then comps + 1 else comps)
                    (0 :: int) (a_responses a);
          tooMuchComplaints = (comps \<ge> a_t a \<or> a_badDealer a)
      in EnoughApprovals a \<and> \<not> tooMuchComplaints)"

definition MinimumT :: "int \<Rightarrow> int" where
  "MinimumT n = (n + 1) div 2"

subsection \<open>The Verifier\<close>



definition ProcessResponse ::
  "('pt, 'sc) Verifier \<Rightarrow> Response \<Rightarrow> unit result \<times> ('pt, 'sc) Verifier"
where
  "ProcessResponse v resp =
     (case v_aggregator v of
        None \<Rightarrow> (Panic PanicNil, v)
      | Some a \<Rightarrow>
          (case verifyResponse a resp of
             (Some e, a') \<Rightarrow> (Err e, v \<lparr> v_aggregator := Some a' \<rparr>)
           | (None, a') \<Rightarrow> (Ok (), v \<lparr> v_aggregator := Some a' \<rparr>)))"

definition ProcessJustification ::
  "('pt, 'sc) Verifier \<Rightarrow> ('pt, 'sc) Justification \<Rightarrow> unit result \<times> ('pt, 'sc) Verifier"
where
  "ProcessJustification v dr =
     (case v_aggregator v of
        None \<Rightarrow> (Panic PanicNil, v)
      | Some a \<Rightarrow>
          (case verifyJustification a dr of
             (Some e, a') \<Rightarrow> (Err e, v \<lparr> v_aggregator := Some a' \<rparr>)
           | (None, a') \<Rightarrow> (Ok (), v \<lparr> v_aggregator := Some a' \<rparr>)))"


subsection \<open>The indices counted by the certification predicates\<close>

definition approvals :: "('pt, 'sc) aggregator \<Rightarrow> 32 word set" where
  "approvals a = {i. \<exists>r. map_of (a_responses a) i = Some r \<and> r_Status r = StatusApproval}"

definition complaints :: "('pt, 'sc) aggregator \<Rightarrow> 32 word set" where
  "complaints a = {i. \<exists>r. map_of (a_responses a) i = Some r \<and> r_Status r = StatusComplaint}"


section \<open>Package promise: the wire codecs\<close>

text \<open>
  Buffers are byte lists whose capacity is their length. \<^verbatim>\<open>make([]byte, n)\<close> is
  \<open>go_make\<close>, \<^verbatim>\<open>buf[lo:hi]\<close> is \<open>go_slice\<close>, \<^verbatim>\<open>buf[lo:]\<close> is
  \<open>go_slice_from\<close>, and \<^verbatim>\<open>copy(buf[lo:], src)\<close> is \<open>copy_at\<close>: it overwrites as
  many bytes as both sides have. \<open>putUint32_at buf lo w\<close> is
  \<^verbatim>\<open>PutUint32(buf[lo:], w)\<close> and \<open>uint32_at buf lo\<close> is \<^verbatim>\<open>Uint32(buf[lo:])\<close>.
\<close>

definition uint32Size :: int where
  "uint32Size = 4"

definition go_make :: "int \<Rightarrow> bytes result" where
  "go_make n = (if n < 0 then Panic PanicMake else Ok (replicate (nat n) 0))"

definition go_slice :: "bytes \<Rightarrow> int \<Rightarrow> int \<Rightarrow> bytes result" where
  "go_slice buf lo hi =
     (if 0 \<le> lo \<and> lo \<le> hi \<and> hi \<le> int (length buf)
      then Ok (take (nat (hi - lo)) (drop (nat lo) buf))
      else Panic PanicSlice)"

definition go_slice_from :: "bytes \<Rightarrow> int \<Rightarrow> bytes result" where
  "go_slice_from buf lo = go_slice buf lo (int (length buf))"

definition copy_at :: "bytes \<Rightarrow> int \<Rightarrow> bytes \<Rightarrow> bytes result" where
  "copy_at buf lo src =
     (if 0 \<le> lo \<and> lo \<le> int (length buf)
      then Ok (take (nat lo) buf @ take (length buf - nat lo) src @ drop (nat lo + length src) buf)
      else Panic PanicSlice)"

definition putUint32_at :: "bytes \<Rightarrow> int \<Rightarrow> 32 word \<Rightarrow> bytes result" where
  "putUint32_at buf lo w =
     andThen (go_slice_from buf lo) (\<lambda>b.
       if length b < 4 then Panic PanicIndex else copy_at buf lo (putUint32 w))"

definition uint32_at :: "bytes \<Rightarrow> int \<Rightarrow> 32 word result" where
  "uint32_at buf lo =
     andThen (go_slice_from buf lo) (\<lambda>b.
       case getUint32 b of None \<Rightarrow> Panic PanicIndex | Some w \<Rightarrow> Ok w)"

text \<open>
  The two loops of \<^verbatim>\<open>Promise.MarshalBinary\<close> that copy the encoding of element
  \<open>i\<close> to \<open>bufPos + i * elemLen\<close> (over \<^verbatim>\<open>insurers\<close> with the point codec, over
  \<^verbatim>\<open>secrets\<close> with the secret codec), and the two loops of
  \<^verbatim>\<open>Promise.UnmarshalBinary\<close> that decode \<open>n\<close> elements; \<open>acc\<close> holds the entries
  assigned so far.
\<close>

function marshalEach ::
  "('a \<Rightarrow> string + bytes) \<Rightarrow> int \<Rightarrow> bytes \<Rightarrow> int \<Rightarrow> 'a list \<Rightarrow> int \<Rightarrow> bytes result"
where
  "marshalEach enc elemLen buf bufPos xs i =
     (if i < int (length xs) then
        andThen (external (enc (xs ! nat i))) (\<lambda>pb.
        andThen (copy_at buf (bufPos + i * elemLen) pb) (\<lambda>buf'.
          marshalEach enc elemLen buf' bufPos xs (i + 1)))
      else Ok buf)"
  by pat_completeness auto
termination
  by (relation "measure (\<lambda>(enc, elemLen, buf, bufPos, xs, i). nat (int (length xs) - i))") auto

declare marshalEach.simps [simp del]

function unmarshalEach ::
  "(bytes \<Rightarrow> string + 'a) \<Rightarrow> int \<Rightarrow> bytes \<Rightarrow> int \<Rightarrow> int \<Rightarrow> int \<Rightarrow> 'a list \<Rightarrow> 'a list result"
where
  "unmarshalEach dec elemLen buf bufPos n i acc =
     (if i < n then
        (let start = bufPos + i * elemLen; stop = start + elemLen in
         andThen (go_slice buf start stop) (\<lambda>b.
         andThen (external (dec b)) (\<lambda>x.
           unmarshalEach dec elemLen buf bufPos n (i + 1) (acc @ [x]))))
      else Ok acc)"
  by pat_completeness auto
termination
  by (relation "measure (\<lambda>(dec, elemLen, buf, bufPos, n, i, acc). nat (n - i))") auto

declare unmarshalEach.simps [simp del]

text \<open>
  \<^verbatim>\<open>UnmarshalBinary\<close> assigns the fields of its receiver as it decodes them; the
  model returns the receiver when the call returns nil. \<^verbatim>\<open>Equal\<close> indexes both
  Promises up to \<open>p.n\<close> and panics where a slice is shorter.
\<close>

definition UnmarshalInit :: "('pt, 'sc) Promise \<Rightarrow> ('pt, 'sc) suite \<Rightarrow> ('pt, 'sc) Promise" where
  "UnmarshalInit p S = p \<lparr> p_suite := S \<rparr>"

function equalLoop :: "('pt, 'sc) Promise \<Rightarrow> ('pt, 'sc) Promise \<Rightarrow> int \<Rightarrow> bool result" where
  "equalLoop p p2 i =
     (if i < p_n p then
        (case (go_index (secrets p) i, go_index (secrets p2) i) of
           (Some s, Some s2) \<Rightarrow>
             if s \<noteq> s2 then Ok False
             else
               (case (go_index (insurers p) i, go_index (insurers p2) i) of
                  (Some k, Some k2) \<Rightarrow> if k \<noteq> k2 then Ok False else equalLoop p p2 (i + 1)
                | _ \<Rightarrow> Panic PanicIndex)
         | _ \<Rightarrow> Panic PanicIndex)
      else Ok True)"
  by pat_completeness auto
termination
  by (relation "measure (\<lambda>(p, p2, i). nat (p_n p - i))") auto

declare equalLoop.simps [simp del]

definition Promise_Equal :: "('pt, 'sc) Promise \<Rightarrow> ('pt, 'sc) Promise \<Rightarrow> bool result" where
  "Promise_Equal p p2 =
     (if p_n p \<noteq> p_n p2 then Ok False
      else if p_suite p \<noteq> p_suite p2 then Ok False
      else
        andThen (equalLoop p p2 0) (\<lambda>same.
          if \<not> same then Ok False
          else Ok (p_t p = p_t p2 \<and> p_r p = p_r p2 \<and> pubKey p = pubKey p2
                   \<and> pubPoly p = pubPoly p2)))"

definition Promise_MarshalSize :: "('pt, 'sc) Promise \<Rightarrow> int" where
  "Promise_MarshalSize p =
     3 * uint32Size + PointLen (p_suite p) + PubPolyMarshalSize (p_suite p) (pubPoly p)
       + p_n p * PointLen (p_suite p) + p_n p * SecretLen (p_suite p)"

definition Promise_MarshalBinary :: "('pt, 'sc) Promise \<Rightarrow> bytes result" where
  "Promise_MarshalBinary p =
     andThen (go_make (Promise_MarshalSize p)) (\<lambda>buf.
     (let pointLen = PointLen (p_suite p);
          polyLen = PubPolyMarshalSize (p_suite p) (pubPoly p);
          secretLen = SecretLen (p_suite p) in
      andThen (putUint32_at buf 0 (uint32_of_int (p_n p))) (\<lambda>buf.
      andThen (putUint32_at buf uint32Size (uint32_of_int (p_t p))) (\<lambda>buf.
      andThen (putUint32_at buf (2 * uint32Size) (uint32_of_int (p_r p))) (\<lambda>buf.
      andThen (external (PointMarshalBinary (p_suite p) (pubKey p))) (\<lambda>pointBuf.
      andThen (copy_at buf (3 * uint32Size) pointBuf) (\<lambda>buf.
      andThen (external (PubPolyMarshalBinary (p_suite p) (pubPoly p))) (\<lambda>polyBuf.
      andThen (copy_at buf (3 * uint32Size + pointLen) polyBuf) (\<lambda>buf.
      (let bufPos = 3 * uint32Size + pointLen + polyLen in
       andThen (marshalEach (PointMarshalBinary (p_suite p)) pointLen buf bufPos (insurers p) 0)
         (\<lambda>buf.
       (let bufPos = bufPos + p_n p * pointLen in
        marshalEach (SecretMarshalBinary (p_suite p)) secretLen buf bufPos (secrets p) 0))))))))))))"

definition Promise_UnmarshalBinary :: "('pt, 'sc) Promise \<Rightarrow> bytes \<Rightarrow> ('pt, 'sc) Promise result" where
  "Promise_UnmarshalBinary p buf =
     (let pointLen = PointLen (p_suite p); secretLen = SecretLen (p_suite p) in
      andThen (uint32_at buf 0) (\<lambda>wn.
      andThen (uint32_at buf uint32Size) (\<lambda>wt.
      andThen (uint32_at buf (2 * uint32Size)) (\<lambda>wr.
      (let n = int_of_uint32 wn; t = int_of_uint32 wt; r = int_of_uint32 wr;
           bufPos = 3 * uint32Size in
       andThen (go_slice buf bufPos (bufPos + pointLen)) (\<lambda>b.
       andThen (external (PointUnmarshalBinary (p_suite p) b)) (\<lambda>pk.
       (let bufPos = bufPos + pointLen; polyLen = PubPolyInitSize (p_suite p) t in
        andThen (go_slice buf bufPos (bufPos + polyLen)) (\<lambda>b.
        andThen (external (PubPolyUnmarshalBinary (p_suite p) t b)) (\<lambda>poly.
        (let bufPos = bufPos + polyLen in
         andThen (unmarshalEach (PointUnmarshalBinary (p_suite p)) pointLen buf bufPos n 0 [])
           (\<lambda>ins.
         (let bufPos = bufPos + n * pointLen in
          andThen
            (unmarshalEach (SecretUnmarshalBinary (p_suite p)) secretLen buf bufPos n 0 [])
            (\<lambda>secs.
          (let p' = p \<lparr> p_t := t, p_r := r, p_n := n, pubKey := pk, pubPoly := poly,
                        insurers := ins, secrets := secs \<rparr> in
           andThen (verifyPromise p') (\<lambda>u. Ok p'))))))))))))))))"


text \<open>
  \<^verbatim>\<open>PromiseSignature.Equal\<close> is \<^verbatim>\<open>p.suite == p2.suite && reflect.DeepEqual(p, p2)\<close>:
  the structs are compared field by field, and a nil slice is not deeply equal to
  an empty one. \<^verbatim>\<open>UnmarshalBinary\<close> stores the sub-slice \<^verbatim>\<open>buf[4 : 4+sigLen]\<close>,
  which is never nil.
\<close>

definition PromiseSignature_UnmarshalInit ::
  "('pt, 'sc) PromiseSignature \<Rightarrow> ('pt, 'sc) suite \<Rightarrow> ('pt, 'sc) PromiseSignature"
where
  "PromiseSignature_UnmarshalInit sg S = sg \<lparr> sig_suite := S \<rparr>"

definition PromiseSignature_Equal ::
  "('pt, 'sc) PromiseSignature \<Rightarrow> ('pt, 'sc) PromiseSignature \<Rightarrow> bool"
where
  "PromiseSignature_Equal p p2 \<longleftrightarrow> sig_suite p = sig_suite p2 \<and> p = p2"

definition PromiseSignature_MarshalSize :: "('pt, 'sc) PromiseSignature \<Rightarrow> int" where
  "PromiseSignature_MarshalSize sg = uint32Size + slice_len (signature sg)"

definition PromiseSignature_MarshalBinary :: "('pt, 'sc) PromiseSignature \<Rightarrow> bytes result" where
  "PromiseSignature_MarshalBinary sg =
     andThen (go_make (PromiseSignature_MarshalSize sg)) (\<lambda>buf.
     andThen (putUint32_at buf 0 (uint32_of_int (slice_len (signature sg)))) (\<lambda>buf.
       copy_at buf uint32Size (slice_bytes (signature sg))))"

definition PromiseSignature_UnmarshalBinary ::
  "('pt, 'sc) PromiseSignature \<Rightarrow> bytes \<Rightarrow> ('pt, 'sc) PromiseSignature result"
where
  "PromiseSignature_UnmarshalBinary sg buf =
     (if int (length buf) < uint32Size then Err ErrBufferTooSmall
      else
        andThen (uint32_at buf 0) (\<lambda>w.
          (let sigLen = int_of_uint32 w in
           if int (length buf) < uint32Size + sigLen then Err ErrBufferTooSmall
           else
             andThen (go_slice buf uint32Size (uint32Size + sigLen)) (\<lambda>b.
               Ok (sg \<lparr> signature := Some b \<rparr>)))))"

definition BlameProof_UnmarshalInit ::
  "('pt, 'sc) BlameProof \<Rightarrow> ('pt, 'sc) suite \<Rightarrow> ('pt, 'sc) BlameProof"
where
  "BlameProof_UnmarshalInit bp S = bp \<lparr> bp_suite := S \<rparr>"

definition BlameProof_Equal :: "('pt, 'sc) BlameProof \<Rightarrow> ('pt, 'sc) BlameProof \<Rightarrow> bool" where
  "BlameProof_Equal bp bp2 \<longleftrightarrow>
     bp_suite bp = bp_suite bp2 \<and> diffieKey bp = diffieKey bp2 \<and>
     diffieKeyProof bp = diffieKeyProof bp2 \<and>
     PromiseSignature_Equal (bp_signature bp) (bp_signature bp2)"

definition BlameProof_MarshalSize :: "('pt, 'sc) BlameProof \<Rightarrow> int" where
  "BlameProof_MarshalSize bp =
     2 * uint32Size + PointLen (bp_suite bp) + slice_len (diffieKeyProof bp)
       + PromiseSignature_MarshalSize (bp_signature bp)"

definition BlameProof_MarshalBinary :: "('pt, 'sc) BlameProof \<Rightarrow> bytes result" where
  "BlameProof_MarshalBinary bp =
     (let pointLen = PointLen (bp_suite bp); proofLen = slice_len (diffieKeyProof bp) in
      andThen (go_make (BlameProof_MarshalSize bp)) (\<lambda>buf.
      andThen (putUint32_at buf 0 (uint32_of_int proofLen)) (\<lambda>buf.
      andThen (putUint32_at buf uint32Size
                 (uint32_of_int (PromiseSignature_MarshalSize (bp_signature bp)))) (\<lambda>buf.
      andThen (external (PointMarshalBinary (bp_suite bp) (diffieKey bp))) (\<lambda>pointBuf.
      andThen (copy_at buf (2 * uint32Size) pointBuf) (\<lambda>buf.
      andThen (copy_at buf (2 * uint32Size + pointLen) (slice_bytes (diffieKeyProof bp))) (\<lambda>buf.
      andThen (PromiseSignature_MarshalBinary (bp_signature bp)) (\<lambda>sigBuf.
        copy_at buf (2 * uint32Size + pointLen + proofLen) sigBuf))))))))"

definition BlameProof_UnmarshalBinary ::
  "('pt, 'sc) BlameProof \<Rightarrow> bytes \<Rightarrow> ('pt, 'sc) BlameProof result"
where
  "BlameProof_UnmarshalBinary bp buf =
     (let pointLen = PointLen (bp_suite bp) in
      if int (length buf) < 2 * uint32Size + pointLen then Err ErrBufferTooSmall
      else
        andThen (uint32_at buf 0) (\<lambda>wp.
        andThen (uint32_at buf uint32Size) (\<lambda>ws.
        (let proofLen = int_of_uint32 wp; sigLen = int_of_uint32 ws; bufPos = 2 * uint32Size in
         andThen (go_slice buf bufPos (bufPos + pointLen)) (\<lambda>b.
         andThen (external (PointUnmarshalBinary (bp_suite bp) b)) (\<lambda>dk.
         (let bufPos = bufPos + pointLen in
          if int (length buf) < 2 * uint32Size + pointLen + proofLen + sigLen
          then Err ErrBufferTooSmall
          else
            andThen (go_make proofLen) (\<lambda>dst.
            andThen (go_slice buf bufPos (bufPos + proofLen)) (\<lambda>src.
            andThen (copy_at dst 0 src) (\<lambda>pf.
            (let bufPos = bufPos + proofLen in
             andThen (go_slice buf bufPos (bufPos + sigLen)) (\<lambda>b.
             andThen (PromiseSignature_UnmarshalBinary
                        (PromiseSignature_UnmarshalInit
                           \<lparr> sig_suite = bp_suite bp, signature = None \<rparr> (bp_suite bp)) b)
               (\<lambda>sg.
               Ok (bp \<lparr> diffieKey := dk, diffieKeyProof := Some pf,
                        bp_signature := sg \<rparr>))))))))))))))"


text \<open>
  \<open>decode(encode(m)) == m\<close> for each message type: marshal \<open>m\<close>, unmarshal into a
  value initialised with \<^verbatim>\<open>UnmarshalInit\<close> on the suite of \<open>m\<close>, compare with
  \<^verbatim>\<open>Equal\<close>. The contracts of the consumed codecs: every point (secret) is
  encoded in \<^verbatim>\<open>PointLen\<close> (\<^verbatim>\<open>SecretLen\<close>) bytes that decode to it, and the public
  polynomial is encoded in \<^verbatim>\<open>MarshalSize\<close> bytes, as many as a polynomial
  initialised for \<open>t\<close> coefficients expects, that decode to it.
\<close>

definition PromiseSignature_roundtrip ::
  "('pt, 'sc) PromiseSignature \<Rightarrow> ('pt, 'sc) PromiseSignature \<Rightarrow> bool result"
where
  "PromiseSignature_roundtrip fresh m =
     andThen (PromiseSignature_MarshalBinary m) (\<lambda>buf.
     andThen (PromiseSignature_UnmarshalBinary
                (PromiseSignature_UnmarshalInit fresh (sig_suite m)) buf) (\<lambda>m'.
       Ok (PromiseSignature_Equal m m')))"

definition BlameProof_roundtrip ::
  "('pt, 'sc) BlameProof \<Rightarrow> ('pt, 'sc) BlameProof \<Rightarrow> bool result"
where
  "BlameProof_roundtrip fresh m =
     andThen (BlameProof_MarshalBinary m) (\<lambda>buf.
     andThen (BlameProof_UnmarshalBinary (BlameProof_UnmarshalInit fresh (bp_suite m)) buf) (\<lambda>m'.
       Ok (BlameProof_Equal m m')))"

definition Promise_roundtrip :: "('pt, 'sc) Promise \<Rightarrow> ('pt, 'sc) Promise \<Rightarrow> bool result" where
  "Promise_roundtrip fresh m =
     andThen (Promise_MarshalBinary m) (\<lambda>buf.
     andThen (Promise_UnmarshalBinary (UnmarshalInit fresh (p_suite m)) buf) (\<lambda>m'.
       Promise_Equal m m'))"

definition point_codec :: "('pt, 'sc) suite \<Rightarrow> bool" where
  "point_codec S \<longleftrightarrow>
     (\<forall>P. \<exists>b. PointMarshalBinary S P = Inr b \<and> int (length b) = PointLen S \<and>
              PointUnmarshalBinary S b = Inr P)"

definition secret_codec :: "('pt, 'sc) suite \<Rightarrow> bool" where
  "secret_codec S \<longleftrightarrow>
     (\<forall>x. \<exists>b. SecretMarshalBinary S x = Inr b \<and> int (length b) = SecretLen S \<and>
              SecretUnmarshalBinary S b = Inr x)"

definition poly_codec :: "('pt, 'sc) suite \<Rightarrow> int \<Rightarrow> 'pt list \<Rightarrow> bool" where
  "poly_codec S t pub \<longleftrightarrow>
     (\<exists>b. PubPolyMarshalBinary S pub = Inr b \<and> PubPolyMarshalSize S pub = int (length b) \<and>
          PubPolyInitSize S t = int (length b) \<and> PubPolyUnmarshalBinary S t b = Inr pub)"


section \<open>A concrete suite\<close>

text \<open>
  A small instance of the suite on which the functions above evaluate: points and
  secrets are bytes, a point times a secret is the product modulo 256, the base
  point is 1, and every codec writes the byte itself. A signature of \<open>msg\<close> by the
  key \<open>P\<close> is \<open>msg\<close> followed by \<open>P\<close>; a proof for \<open>D\<close> and \<open>P\<close> is the two bytes.
\<close>

definition demo_horner :: "byte list \<Rightarrow> byte \<Rightarrow> byte" where
  "demo_horner cs x = foldr (\<lambda>c acc. c + x * acc) cs 0"

definition demo_suite :: "(byte, byte) suite" where
  "demo_suite =
     \<lparr> PointLen = 1, SecretLen = 1,
       PointString = (\<lambda>P. ''point''),
       PointMul = (\<lambda>P s. P * s),
       PointMarshalBinary = (\<lambda>P. Inr [P]),
       PointUnmarshalBinary = (\<lambda>b. case b of [x] \<Rightarrow> Inr x | _ \<Rightarrow> Inl ''point length''),
       SecretAdd = (\<lambda>a b. a + b),
       SecretSub = (\<lambda>a b. a - b),
       SecretMarshalBinary = (\<lambda>s. Inr [s]),
       SecretUnmarshalBinary = (\<lambda>b. case b of [x] \<Rightarrow> Inr x | _ \<Rightarrow> Inl ''secret length''),
       CipherPick = (\<lambda>b. sum_list b),
       AnonVerify = (\<lambda>msg set sg. if sg = msg @ set then None else Some ''invalid signature''),
       HashVerify = (\<lambda>name D P pf. if pf = [D, P] then None else Some ''invalid proof''),
       PriPolyPick = (\<lambda>k s0. if k < 1 then None else Some (s0 # replicate (nat k - 1) 1)),
       PriShare = (\<lambda>cs n i. demo_horner cs (word_of_int (i + 1))),
       PubPolyCommit = (\<lambda>cs. map (\<lambda>c. 1 * c) cs),
       PubPolyCheck = (\<lambda>pub i sh. 1 * sh = demo_horner pub (word_of_int (i + 1))),
       PubPolyMarshalSize = (\<lambda>pub. int (length pub)),
       PubPolyInitSize = (\<lambda>k. k),
       PubPolyMarshalBinary = (\<lambda>pub. Inr pub),
       PubPolyUnmarshalBinary =
         (\<lambda>k b. if int (length b) = k then Inr b else Inl ''polynomial length'') \<rparr>"

text \<open>The promiser's key pairs and two insurers with secrets 3 and 5.\<close>

definition demo_secretPair :: "(byte, byte) KeyPair" where
  "demo_secretPair = \<lparr> Suite = demo_suite, Public = 9, Secret = 9 \<rparr>"

definition demo_longPair :: "(byte, byte) KeyPair" where
  "demo_longPair = \<lparr> Suite = demo_suite, Public = 7, Secret = 7 \<rparr>"

definition demo_insurer0 :: "(byte, byte) KeyPair" where
  "demo_insurer0 = \<lparr> Suite = demo_suite, Public = 3, Secret = 3 \<rparr>"

definition demo_insurer1 :: "(byte, byte) KeyPair" where
  "demo_insurer1 = \<lparr> Suite = demo_suite, Public = 5, Secret = 5 \<rparr>"

text \<open>
  The Promise that \<open>ConstructPromise demo_secretPair demo_longPair 1 2 [3, 5]\<close>
  builds: the polynomial is the constant 9, and the shares are masked with
  \<open>3 * 7 = 21\<close> and \<open>5 * 7 = 35\<close>.
\<close>

definition demo_promise :: "(byte, byte) Promise" where
  "demo_promise =
     \<lparr> p_id = ''point'', p_suite = demo_suite, p_t = 1, p_r = 2, p_n = 2,
       pubKey = 7, pubPoly = [9], insurers = [3, 5], secrets = [30, 44] \<rparr>"

definition demo_sig0 :: "(byte, byte) PromiseSignature" where
  "demo_sig0 = \<lparr> sig_suite = demo_suite, signature = Some (sigMsg @ [3]) \<rparr>"

definition demo_sig1 :: "(byte, byte) PromiseSignature" where
  "demo_sig1 = \<lparr> sig_suite = demo_suite, signature = Some (sigMsg @ [5]) \<rparr>"

definition demo_blame1 :: "(byte, byte) BlameProof" where
  "demo_blame1 =
     \<lparr> bp_suite = demo_suite, diffieKey = 35, diffieKeyProof = Some [35, 7],
       bp_signature = \<lparr> sig_suite = demo_suite, signature = Some (sigBlameMsg @ [5]) \<rparr> \<rparr>"

definition demo_bad_promise :: "(byte, byte) Promise" where
  "demo_bad_promise = demo_promise \<lparr> secrets := [30, 45] \<rparr>"

definition demo_state :: "(byte, byte) PromiseState" where
  "demo_state =
     \<lparr> ps_Promise = demo_promise, PriShares = [None, None],
       signatures = [Some demo_sig0, Some demo_sig1], blames = [None, Some demo_blame1] \<rparr>"

definition demo_blamed_state :: "(byte, byte) PromiseState" where
  "demo_blamed_state =
     \<lparr> ps_Promise = demo_bad_promise, PriShares = [None, None],
       signatures = [Some demo_sig0, Some demo_sig1], blames = [None, Some demo_blame1] \<rparr>"


text \<open>
  The same for package vss: the base point is 1, the hash of a buffer is the sum of
  its bytes, and the Schnorr signature of \<open>msg\<close> under the key \<open>x\<close> is \<open>msg\<close>
  followed by the public key \<open>x \<cdot> 1\<close>. The dealer's key is 7 and the verifiers'
  keys are 3 and 5, so \<open>H = 8\<close>; with \<open>f = 9 + x\<close> and \<open>g = 2 + x\<close> the commitments
  are \<open>[25, 9]\<close> and the shares of verifier 0 are \<open>f = 10\<close> and \<open>g = 3\<close>.
\<close>

definition demo_vss_suite :: "(byte, byte) vss_suite" where
  "demo_vss_suite =
     \<lparr> Hash = (\<lambda>b. [sum_list b]),
       PointMarshal = (\<lambda>P. [P]),
       ScalarMarshal = (\<lambda>s. [s]),
       WriteInt = (\<lambda>i. [word_of_int i]),
       BaseMul = (\<lambda>s. s),
       Mul = (\<lambda>P s. P * s),
       Add = (\<lambda>P Q. P + Q),
       PickPoint = (\<lambda>b. sum_list b),
       Schnorr = (\<lambda>x msg. Inr (msg @ [x])),
       VerifySchnorr = (\<lambda>P msg sg. if sg = msg @ [P] then None else Some ''invalid signature''),
       PubPolyEval = (\<lambda>cs i. demo_horner cs (word_of_int (i + 1))) \<rparr>"




definition demo_sid :: bytes where
  "demo_sid = sessionID demo_vss_suite 7 [3, 5] [25, 9] 2"









definition demo_response :: "32 word \<Rightarrow> byte \<Rightarrow> Response" where
  "demo_response idx st =
     \<lparr> r_SessionID = demo_sid, r_Index = idx, r_Status = st, r_Signature = [] \<rparr>"

definition demo_counting_agg :: "(byte, byte) aggregator" where
  "demo_counting_agg =
     \<lparr> a_suite = demo_vss_suite, a_dealer = 7, a_verifiers = [3, 5, 6, 8], a_commits = [25, 9],
       a_responses = [(3, demo_response 3 statusJustified), (2, demo_response 2 StatusComplaint),
                      (1, demo_response 1 StatusApproval), (0, demo_response 0 StatusApproval)],
       a_sid = demo_sid, a_deal = None, a_t = 2, a_badDealer = False \<rparr>"


text \<open>
  A signature whose slice is nil, and a buffer that encodes \<open>n = 1\<close>, \<open>t = 0\<close>,
  \<open>r = 1\<close>, the key 7, no commitment, the insurer 3 and the secret 30.
\<close>

definition demo_nil_sig :: "(byte, byte) PromiseSignature" where
  "demo_nil_sig = \<lparr> sig_suite = demo_suite, signature = None \<rparr>"

text \<open>A Promise with \<open>t = -1 \<le> r = 0 \<le> n = 0\<close> and no insurer.\<close>

definition demo_negative_t_promise :: "(byte, byte) Promise" where
  "demo_negative_t_promise =
     \<lparr> p_id = ''point'', p_suite = demo_suite, p_t = - 1, p_r = 0, p_n = 0,
       pubKey = 7, pubPoly = [], insurers = [], secrets = [] \<rparr>"

definition demo_t0_buffer :: bytes where
  "demo_t0_buffer = [1, 0, 0, 0,  0, 0, 0, 0,  1, 0, 0, 0,  7,  3,  30]"

definition demo_t0_promise :: "(byte, byte) Promise" where
  "demo_t0_promise =
     \<lparr> p_id = ''point'', p_suite = demo_suite, p_t = 0, p_r = 1, p_n = 1,
       pubKey = 7, pubPoly = [], insurers = [3], secrets = [30] \<rparr>"


section \<open>Theorems: package promise\<close>

lemma go_index_in_range [simp]:
  "0 \<le> i \<Longrightarrow> i < int (length xs) \<Longrightarrow> go_index xs i = Some (xs ! nat i)"
  by (simp add: go_index_def)

lemma go_index_out_of_range [simp]:
  "\<not> (0 \<le> i \<and> i < int (length xs)) \<Longrightarrow> go_index xs i = None"
  by (simp add: go_index_def)

text \<open>
  C5, as the code has it: when \<open>t \<le> r \<le> len(insurers)\<close> does not hold,
  \<^verbatim>\<open>ConstructPromise\<close> panics with "Invalid t, r, and n. Expected t <= r <= n";
  it returns neither an error value nor a Promise.
\<close>

theorem ConstructPromise_invalid_panics:
  "\<not> (t \<le> r \<and> r \<le> int (length ins)) \<Longrightarrow>
     ConstructPromise secretPair longPair t r ins = Panic PanicInvalidTRN"
  by (simp add: ConstructPromise_def Let_def)

theorem ConstructPromise_invalid_panics_witness:
  "\<not> ((2::int) \<le> 1 \<and> (1::int) \<le> int (length [3::byte, 5])) \<and>
     ConstructPromise demo_secretPair demo_longPair 2 1 [3, 5] = Panic PanicInvalidTRN"
  using ConstructPromise_invalid_panics [of 2 1 "[3::byte, 5]" demo_secretPair demo_longPair]
  by simp

text \<open>
  C5 as stated fails: for \<open>t = 2\<close>, \<open>r = 1\<close> and two insurers the call does not
  return an error value; it panics.
\<close>

theorem ConstructPromise_error_counterexample:
  "\<not> is_Err (ConstructPromise demo_secretPair demo_longPair 2 1 [3, 5]) \<and>
     ConstructPromise demo_secretPair demo_longPair 2 1 [3, 5] = Panic PanicInvalidTRN"
  by (simp add: ConstructPromise_def Let_def)

text \<open>
  C10: \<^verbatim>\<open>RevealShare\<close> has no bounds check. For a Promise with \<open>len(secrets) = n\<close>
  and an index outside \<open>0 \<le> i < n\<close> it panics (on the read of \<open>secrets[i]\<close> once the
  Diffie-Hellman secret is computed), where \<^verbatim>\<open>VerifyShare\<close> and
  \<^verbatim>\<open>VerifyRevealedShare\<close> return the invalid-index error; inside the range it
  returns \<open>secrets[i]\<close> minus the Diffie-Hellman secret.
\<close>

theorem RevealShare_no_bounds_check:
  assumes "int (length (secrets p)) = p_n p"
  shows "(\<not> (0 \<le> i \<and> i < p_n p) \<longrightarrow>
            is_Panic (RevealShare p i kp) \<and>
            (\<forall>ds. diffieHellmanSecret (p_suite p) (PointMul (p_suite p) (pubKey p) (Secret kp)) = Ok ds
               \<longrightarrow> RevealShare p i kp = Panic PanicIndex) \<and>
            VerifyShare p i kp = Err ErrInvalidIndex \<and>
            VerifyRevealedShare p i sh = Err ErrInvalidIndex) \<and>
         (0 \<le> i \<and> i < p_n p \<longrightarrow>
            (\<forall>ds. diffieHellmanSecret (p_suite p) (PointMul (p_suite p) (pubKey p) (Secret kp)) = Ok ds
               \<longrightarrow> RevealShare p i kp = Ok (SecretSub (p_suite p) (secrets p ! nat i) ds)))"
proof (intro conjI impI allI)
  assume out: "\<not> (0 \<le> i \<and> i < p_n p)"
  then have idx: "go_index (secrets p) i = None"
    using assms by simp
  show "is_Panic (RevealShare p i kp)"
    using idx
    by (simp add: RevealShare_def diffieHellmanSecret_def split: sum.splits)
  show "VerifyShare p i kp = Err ErrInvalidIndex"
    using out by (auto simp: VerifyShare_def)
  show "VerifyRevealedShare p i sh = Err ErrInvalidIndex"
    using out by (auto simp: VerifyRevealedShare_def)
  fix ds
  assume "diffieHellmanSecret (p_suite p) (PointMul (p_suite p) (pubKey p) (Secret kp)) = Ok ds"
  then show "RevealShare p i kp = Panic PanicIndex"
    using idx by (simp add: RevealShare_def)
next
  fix ds
  assume "0 \<le> i \<and> i < p_n p"
    and "diffieHellmanSecret (p_suite p) (PointMul (p_suite p) (pubKey p) (Secret kp)) = Ok ds"
  then show "RevealShare p i kp = Ok (SecretSub (p_suite p) (secrets p ! nat i) ds)"
    using assms by (simp add: RevealShare_def)
qed

theorem RevealShare_no_bounds_check_witness:
  "int (length (secrets demo_promise)) = p_n demo_promise \<and>
   RevealShare demo_promise 2 demo_insurer0 = Panic PanicIndex \<and>
   VerifyShare demo_promise 2 demo_insurer0 = Err ErrInvalidIndex \<and>
   VerifyRevealedShare demo_promise 2 9 = Err ErrInvalidIndex \<and>
   RevealShare demo_promise 0 demo_insurer0 = Ok 9"
proof -
  have len: "int (length (secrets demo_promise)) = p_n demo_promise"
    by (simp add: demo_promise_def)
  have dh: "diffieHellmanSecret (p_suite demo_promise)
              (PointMul (p_suite demo_promise) (pubKey demo_promise) (Secret demo_insurer0)) = Ok 21"
    by (simp add: diffieHellmanSecret_def demo_promise_def demo_suite_def demo_insurer0_def)
  have out: "\<not> (0 \<le> (2::int) \<and> 2 < p_n demo_promise)"
    by (simp add: demo_promise_def)
  have inr: "0 \<le> (0::int) \<and> 0 < p_n demo_promise"
    by (simp add: demo_promise_def)
  from RevealShare_no_bounds_check [OF len, of 2 demo_insurer0 9] out dh
  have a: "RevealShare demo_promise 2 demo_insurer0 = Panic PanicIndex"
    and b: "VerifyShare demo_promise 2 demo_insurer0 = Err ErrInvalidIndex"
    and c: "VerifyRevealedShare demo_promise 2 9 = Err ErrInvalidIndex"
    by blast+
  from RevealShare_no_bounds_check [OF len, of 0 demo_insurer0 9] inr dh
  have "RevealShare demo_promise 0 demo_insurer0
          = Ok (SecretSub (p_suite demo_promise) (secrets demo_promise ! nat 0) 21)"
    by blast
  then have d: "RevealShare demo_promise 0 demo_insurer0 = Ok 9"
    by (simp add: demo_promise_def demo_suite_def)
  from len a b c d show ?thesis by blast
qed

lemma VerifySignature_no_panic:
  "int (length (insurers p)) = p_n p \<Longrightarrow> \<not> is_Panic (VerifySignature p i s)"
  by (auto simp: VerifySignature_def verifySignature_def split: option.splits)

lemma VerifyBlame_no_panic:
  assumes "int (length (insurers p)) = p_n p" "int (length (secrets p)) = p_n p"
    and "\<forall>D. \<exists>b. PointMarshalBinary (p_suite p) D = Inr b"
  shows "\<not> is_Panic (VerifyBlame p i bp)"
proof -
  obtain b where "PointMarshalBinary (p_suite p) (diffieKey bp) = Inr b"
    using assms(3) by blast
  then show ?thesis
    using assms(1,2)
    by (auto simp: VerifyBlame_def verifySignature_def diffieHellmanSecret_def
             split: option.splits result.splits)
qed


text \<open>
  The loop of \<^verbatim>\<open>PromiseCertified\<close> from index \<open>i\<close> with \<open>v\<close> valid signatures
  counted so far.
\<close>

lemma certifyLoop_spec:
  assumes li: "int (length (insurers (ps_Promise ps))) = p_n (ps_Promise ps)"
    and ls: "int (length (secrets (ps_Promise ps))) = p_n (ps_Promise ps)"
    and lsig: "int (length (signatures ps)) = p_n (ps_Promise ps)"
    and lbl: "int (length (blames ps)) = p_n (ps_Promise ps)"
    and tot: "\<forall>D. \<exists>b. PointMarshalBinary (p_suite (ps_Promise ps)) D = Inr b"
  shows "k = nat (p_n (ps_Promise ps) - i) \<Longrightarrow> 0 \<le> i \<Longrightarrow>
     certifyLoop ps i v =
       (if \<exists>j. i \<le> j \<and> j < p_n (ps_Promise ps) \<and> validBlame ps j then Err ErrValidBlame
        else if v + int (length (filter (validSignature ps)
                     (map int [nat i ..< nat (p_n (ps_Promise ps))]))) < p_r (ps_Promise ps)
        then Err ErrNotEnoughSignatures
        else Ok ())"
proof (induction k arbitrary: i v)
  case 0
  then have ge: "\<not> i < p_n (ps_Promise ps)" by simp
  then have "\<not> (\<exists>j. i \<le> j \<and> j < p_n (ps_Promise ps) \<and> validBlame ps j)" by auto
  moreover have "[nat i ..< nat (p_n (ps_Promise ps))] = []" using ge by simp
  ultimately show ?case using ge by (subst certifyLoop.simps) simp
next
  case (Suc k)
  let ?P = "ps_Promise ps"
  let ?n = "p_n ?P"
  from Suc.prems have lt: "i < ?n" and nn: "0 \<le> i" by auto
  have k': "k = nat (?n - (i + 1))" using Suc.prems by auto
  have IH: "\<And>w. certifyLoop ps (i + 1) w =
       (if \<exists>j. i + 1 \<le> j \<and> j < ?n \<and> validBlame ps j then Err ErrValidBlame
        else if w + int (length (filter (validSignature ps) (map int [nat (i + 1) ..< nat ?n]))) < p_r ?P
        then Err ErrNotEnoughSignatures
        else Ok ())"
    using Suc.IH [OF k'] nn by simp
  have upt: "[nat i ..< nat ?n] = nat i # [nat (i + 1) ..< nat ?n]"
    using lt nn by (simp add: upt_conv_Cons nat_add_distrib)
  have ex: "(\<exists>j. i \<le> j \<and> j < ?n \<and> validBlame ps j)
              \<longleftrightarrow> validBlame ps i \<or> (\<exists>j. i + 1 \<le> j \<and> j < ?n \<and> validBlame ps j)"
  proof
    assume "\<exists>j. i \<le> j \<and> j < ?n \<and> validBlame ps j"
    then obtain j where j: "i \<le> j" "j < ?n" "validBlame ps j" by blast
    show "validBlame ps i \<or> (\<exists>j. i + 1 \<le> j \<and> j < ?n \<and> validBlame ps j)"
    proof (cases "j = i")
      case True
      then show ?thesis using j by simp
    next
      case False
      then have "i + 1 \<le> j" using j by simp
      then show ?thesis using j by blast
    qed
  next
    assume "validBlame ps i \<or> (\<exists>j. i + 1 \<le> j \<and> j < ?n \<and> validBlame ps j)"
    then show "\<exists>j. i \<le> j \<and> j < ?n \<and> validBlame ps j"
    proof
      assume "validBlame ps i"
      then show ?thesis using lt by auto
    next
      assume "\<exists>j. i + 1 \<le> j \<and> j < ?n \<and> validBlame ps j"
      then obtain j where "i + 1 \<le> j" "j < ?n" "validBlame ps j" by blast
      then have "i \<le> j \<and> j < ?n \<and> validBlame ps j" by simp
      then show ?thesis by blast
    qed
  qed
  have gs: "go_index (signatures ps) i = Some (signatures ps ! nat i)"
    using lt nn lsig by simp
  have gb: "go_index (blames ps) i = Some (blames ps ! nat i)"
    using lt nn lbl by simp
  have nps: "\<And>s. \<not> is_Panic (VerifySignature ?P i s)"
    using VerifySignature_no_panic [OF li] by blast
  have npb: "\<And>b. \<not> is_Panic (VerifyBlame ?P i b)"
    using VerifyBlame_no_panic [OF li ls tot] by blast
  define w where "w = (if validSignature ps i then v + 1 else v)"
  have sigstep: "(case signatures ps ! nat i of
                      None \<Rightarrow> Ok v
                    | Some s \<Rightarrow>
                        (case VerifySignature ?P i s of
                           Ok u \<Rightarrow> Ok (v + 1)
                         | Err e \<Rightarrow> Ok v
                         | Panic q \<Rightarrow> Panic q)) = Ok w"
  proof (cases "signatures ps ! nat i")
    case None
    then show ?thesis by (simp add: w_def validSignature_def gs)
  next
    case (Some s)
    then show ?thesis
      using nps [of s]
      by (cases "VerifySignature ?P i s") (simp_all add: w_def validSignature_def gs)
  qed
  have cnt: "v + int (length (filter (validSignature ps) (map int [nat i ..< nat ?n])))
           = w + int (length (filter (validSignature ps) (map int [nat (i + 1) ..< nat ?n])))"
    using nn by (simp add: upt w_def)
  have step: "certifyLoop ps i v =
     (if validBlame ps i then Err ErrValidBlame else certifyLoop ps (i + 1) w)"
  proof (cases "blames ps ! nat i")
    case None
    then show ?thesis
      using lt by (subst certifyLoop.simps) (simp add: gs gb sigstep validBlame_def)
  next
    case (Some b)
    then show ?thesis
      using lt npb [of b]
      by (subst certifyLoop.simps)
         (cases "VerifyBlame ?P i b"; simp add: gs gb sigstep validBlame_def)
  qed
  show ?case
  proof (cases "validBlame ps i")
    case True
    then have "\<exists>j. i \<le> j \<and> j < ?n \<and> validBlame ps j" using ex by blast
    then show ?thesis using True step by simp
  next
    case False
    show ?thesis
    proof (cases "\<exists>j. i + 1 \<le> j \<and> j < ?n \<and> validBlame ps j")
      case True
      then have e: "\<exists>j. i \<le> j \<and> j < ?n \<and> validBlame ps j" using ex by blast
      have "certifyLoop ps i v = Err ErrValidBlame"
        using step False IH [of w] True by simp
      then show ?thesis using e by simp
    next
      case nb: False
      then have e: "\<not> (\<exists>j. i \<le> j \<and> j < ?n \<and> validBlame ps j)" using ex False by blast
      have "certifyLoop ps i v =
              (if w + int (length (filter (validSignature ps) (map int [nat (i + 1) ..< nat ?n]))) < p_r ?P
               then Err ErrNotEnoughSignatures else Ok ())"
        using step False IH [of w] nb by simp
      then show ?thesis using e cnt by simp
    qed
  qed
qed

text \<open>
  C2: for a PromiseState whose Promise passes \<^verbatim>\<open>verifyPromise\<close> and whose
  \<^verbatim>\<open>signatures\<close> and \<^verbatim>\<open>blames\<close> have the \<open>n\<close> slots \<^verbatim>\<open>Init\<close> gives them,
  \<^verbatim>\<open>PromiseCertified\<close> fails (with the valid-blame error) whenever some
  \<open>blames[j]\<close> is non-nil and passes \<^verbatim>\<open>VerifyBlame\<close>; otherwise it returns nil
  exactly when at least \<open>r\<close> indices hold a non-nil signature that passes
  \<^verbatim>\<open>VerifySignature\<close>. The encoding of points is assumed not to fail, so that
  \<^verbatim>\<open>VerifyBlame\<close> does not panic inside the loop.
\<close>

theorem PromiseCertified_spec:
  assumes wf: "verifyPromise (ps_Promise ps) = Ok ()"
    and lsig: "int (length (signatures ps)) = p_n (ps_Promise ps)"
    and lbl: "int (length (blames ps)) = p_n (ps_Promise ps)"
    and tot: "\<forall>D. \<exists>b. PointMarshalBinary (p_suite (ps_Promise ps)) D = Inr b"
  shows "((\<exists>j. 0 \<le> j \<and> j < p_n (ps_Promise ps) \<and> validBlame ps j)
            \<longrightarrow> PromiseCertified ps = Err ErrValidBlame) \<and>
         (\<not> (\<exists>j. 0 \<le> j \<and> j < p_n (ps_Promise ps) \<and> validBlame ps j)
            \<longrightarrow> (PromiseCertified ps = Ok () \<longleftrightarrow> p_r (ps_Promise ps) \<le> countValidSignatures ps))"
proof -
  from wf have li: "int (length (insurers (ps_Promise ps))) = p_n (ps_Promise ps)"
    and ls: "int (length (secrets (ps_Promise ps))) = p_n (ps_Promise ps)"
    by (auto simp: verifyPromise_def split: if_splits)
  have "PromiseCertified ps = certifyLoop ps 0 0"
    using wf by (simp add: PromiseCertified_def)
  also have "\<dots> =
       (if \<exists>j. 0 \<le> j \<and> j < p_n (ps_Promise ps) \<and> validBlame ps j then Err ErrValidBlame
        else if 0 + int (length (filter (validSignature ps)
                     (map int [nat 0 ..< nat (p_n (ps_Promise ps))]))) < p_r (ps_Promise ps)
        then Err ErrNotEnoughSignatures
        else Ok ())"
    by (rule certifyLoop_spec [OF li ls lsig lbl tot refl]) simp
  finally show ?thesis
    by (auto simp: countValidSignatures_def)
qed



lemmas demo_defs =
  demo_suite_def demo_promise_def demo_bad_promise_def demo_sig0_def demo_sig1_def
  demo_blame1_def demo_state_def demo_blamed_state_def demo_horner_def
  demo_insurer0_def demo_insurer1_def demo_secretPair_def demo_longPair_def

lemma demo_blame_unjustified:
  "VerifyBlame demo_promise 1 demo_blame1 = Err ErrUnjustifiedBlame"
  by (simp add: VerifyBlame_def verifySignature_def diffieHellmanSecret_def slice_bytes_def
        go_index_def demo_defs)

lemma demo_blame_valid:
  "VerifyBlame demo_bad_promise 1 demo_blame1 = Ok ()"
  by (simp add: VerifyBlame_def verifySignature_def diffieHellmanSecret_def slice_bytes_def
        go_index_def demo_defs)

lemma demo_sigs_valid:
  "VerifySignature demo_promise 0 demo_sig0 = Ok ()"
  "VerifySignature demo_promise 1 demo_sig1 = Ok ()"
  by (simp_all add: VerifySignature_def verifySignature_def go_index_def demo_defs)

text \<open>
  The theorem at two states: one with two valid signatures and an unjustified
  blame (certified), one with a valid blame (not certified).
\<close>

theorem PromiseCertified_spec_witness:
  "verifyPromise (ps_Promise demo_state) = Ok () \<and>
   countValidSignatures demo_state = 2 \<and>
   \<not> validBlame demo_state 0 \<and> \<not> validBlame demo_state 1 \<and>
   PromiseCertified demo_state = Ok () \<and>
   validBlame demo_blamed_state 1 \<and>
   PromiseCertified demo_blamed_state = Err ErrValidBlame"
proof -
  have wf1: "verifyPromise (ps_Promise demo_state) = Ok ()"
    by (simp add: verifyPromise_def demo_defs)
  have wf2: "verifyPromise (ps_Promise demo_blamed_state) = Ok ()"
    by (simp add: verifyPromise_def demo_defs)
  have tot: "\<forall>D. \<exists>b. PointMarshalBinary demo_suite D = Inr b"
    by (simp add: demo_suite_def)
  have cnt: "countValidSignatures demo_state = 2"
    using demo_sigs_valid
    by (simp add: countValidSignatures_def validSignature_def go_index_def demo_state_def
          demo_promise_def eval_nat_numeral)
  have nb0: "\<not> validBlame demo_state 0"
    by (simp add: validBlame_def go_index_def demo_state_def)
  have nb1: "\<not> validBlame demo_state 1"
    using demo_blame_unjustified
    by (simp add: validBlame_def go_index_def demo_state_def)
  have none: "\<not> (\<exists>j. 0 \<le> j \<and> j < p_n (ps_Promise demo_state) \<and> validBlame demo_state j)"
  proof
    assume "\<exists>j. 0 \<le> j \<and> j < p_n (ps_Promise demo_state) \<and> validBlame demo_state j"
    then obtain j where j: "0 \<le> j" "j < 2" "validBlame demo_state j"
      by (auto simp: demo_state_def demo_promise_def)
    then have "j = 0 \<or> j = 1" by arith
    then show False using j(3) nb0 nb1 by auto
  qed
  have vb: "validBlame demo_blamed_state 1"
    using demo_blame_valid
    by (simp add: validBlame_def go_index_def demo_blamed_state_def)
  then have some: "\<exists>j. 0 \<le> j \<and> j < p_n (ps_Promise demo_blamed_state) \<and> validBlame demo_blamed_state j"
    by (intro exI [of _ 1]) (simp add: demo_blamed_state_def demo_bad_promise_def demo_promise_def)
  have c1: "PromiseCertified demo_state = Ok ()"
    using PromiseCertified_spec [of demo_state] wf1 tot none cnt
    by (simp add: demo_state_def demo_promise_def)
  have c2: "PromiseCertified demo_blamed_state = Err ErrValidBlame"
    using PromiseCertified_spec [of demo_blamed_state] wf2 tot some
    by (simp add: demo_blamed_state_def demo_bad_promise_def demo_promise_def)
  from wf1 cnt nb0 nb1 c1 vb c2 show ?thesis by blast
qed

text \<open>
  C8: for an index \<open>0 \<le> i < n\<close> of a Promise with \<open>n\<close> secrets and a BlameProof
  whose author signature verifies over \<^verbatim>\<open>sigBlameMsg\<close> and whose proof verifies
  for \<^verbatim>\<open>diffieKey\<close> against \<^verbatim>\<open>pubKey\<close>, \<^verbatim>\<open>VerifyBlame\<close> returns the
  unjustified-blame error exactly when \<open>secrets[i]\<close> minus the hash-to-scalar \<open>ds\<close>
  of \<^verbatim>\<open>diffieKey\<close> passes the public-polynomial check at \<open>i\<close>, and nil exactly
  when the check fails.
\<close>

theorem VerifyBlame_spec:
  assumes "0 \<le> i" "i < p_n p" "int (length (secrets p)) = p_n p"
    and "verifySignature p i (bp_signature bp) sigBlameMsg = Ok ()"
    and "HashVerify (p_suite p) protocolName (diffieKey bp) (pubKey p)
           (slice_bytes (diffieKeyProof bp)) = None"
    and "diffieHellmanSecret (p_suite p) (diffieKey bp) = Ok ds"
  shows "(VerifyBlame p i bp = Err ErrUnjustifiedBlame
            \<longleftrightarrow> PubPolyCheck (p_suite p) (pubPoly p) i (SecretSub (p_suite p) (secrets p ! nat i) ds)) \<and>
         (VerifyBlame p i bp = Ok ()
            \<longleftrightarrow> \<not> PubPolyCheck (p_suite p) (pubPoly p) i (SecretSub (p_suite p) (secrets p ! nat i) ds))"
  using assms by (simp add: VerifyBlame_def)

theorem VerifyBlame_spec_witness:
  "verifySignature demo_promise 1 (bp_signature demo_blame1) sigBlameMsg = Ok () \<and>
   HashVerify demo_suite protocolName (diffieKey demo_blame1) (pubKey demo_promise)
     (slice_bytes (diffieKeyProof demo_blame1)) = None \<and>
   diffieHellmanSecret demo_suite (diffieKey demo_blame1) = Ok 35 \<and>
   PubPolyCheck demo_suite (pubPoly demo_promise) 1 (SecretSub demo_suite (secrets demo_promise ! nat 1) 35) \<and>
   VerifyBlame demo_promise 1 demo_blame1 = Err ErrUnjustifiedBlame \<and>
   \<not> PubPolyCheck demo_suite (pubPoly demo_bad_promise) 1
        (SecretSub demo_suite (secrets demo_bad_promise ! nat 1) 35) \<and>
   VerifyBlame demo_bad_promise 1 demo_blame1 = Ok ()"
proof -
  have s1: "verifySignature demo_promise 1 (bp_signature demo_blame1) sigBlameMsg = Ok ()"
    and s2: "verifySignature demo_bad_promise 1 (bp_signature demo_blame1) sigBlameMsg = Ok ()"
    by (simp_all add: verifySignature_def go_index_def demo_defs)
  have h: "HashVerify demo_suite protocolName (diffieKey demo_blame1) (pubKey demo_promise)
             (slice_bytes (diffieKeyProof demo_blame1)) = None"
    by (simp add: slice_bytes_def demo_defs)
  have d: "diffieHellmanSecret demo_suite (diffieKey demo_blame1) = Ok 35"
    by (simp add: diffieHellmanSecret_def demo_defs)
  have c1: "PubPolyCheck demo_suite (pubPoly demo_promise) 1
              (SecretSub demo_suite (secrets demo_promise ! nat 1) 35)"
    by (simp add: demo_defs)
  have c2: "\<not> PubPolyCheck demo_suite (pubPoly demo_bad_promise) 1
              (SecretSub demo_suite (secrets demo_bad_promise ! nat 1) 35)"
    by (simp add: demo_defs)
  have v1: "VerifyBlame demo_promise 1 demo_blame1 = Err ErrUnjustifiedBlame"
    using VerifyBlame_spec [of 1 demo_promise demo_blame1 35] s1 h d c1
    by (simp add: demo_promise_def)
  have v2: "VerifyBlame demo_bad_promise 1 demo_blame1 = Ok ()"
    using VerifyBlame_spec [of 1 demo_bad_promise demo_blame1 35] s2 h d c2
    by (simp add: demo_promise_def demo_bad_promise_def)
  from s1 h d c1 v1 c2 v2 show ?thesis by blast
qed


text \<open>
  What the loop of \<^verbatim>\<open>ConstructPromise\<close> leaves in \<^verbatim>\<open>secrets\<close> when it ends.
\<close>

lemma encryptShares_Ok:
  assumes n: "n = int (length ins)"
  shows "k = nat (n - i) \<Longrightarrow> 0 \<le> i \<Longrightarrow> i \<le> n \<Longrightarrow> length acc = nat i \<Longrightarrow>
         encryptShares S ins longSecret pripoly n i acc = Ok secs \<Longrightarrow>
         length secs = nat n \<and> take (nat i) secs = acc \<and>
         (\<forall>j. nat i \<le> j \<and> j < nat n \<longrightarrow>
            (\<exists>ds. diffieHellmanSecret S (PointMul S (ins ! j) longSecret) = Ok ds \<and>
                  secs ! j = SecretAdd S (PriShare S pripoly n (int j)) ds))"
proof (induction k arbitrary: i acc)
  case 0
  then have "i = n" by simp
  then show ?case using 0 by (auto simp: encryptShares.simps)
next
  case (Suc k)
  then have lt: "i < n" and nn: "0 \<le> i" by auto
  have gi: "go_index ins i = Some (ins ! nat i)" using lt nn n by simp
  from Suc.prems(5) lt gi obtain ds where
    ds: "diffieHellmanSecret S (PointMul S (ins ! nat i) longSecret) = Ok ds"
    and rec: "encryptShares S ins longSecret pripoly n (i + 1)
                (acc @ [SecretAdd S (PriShare S pripoly n i) ds]) = Ok secs"
    by (subst (asm) encryptShares.simps) (auto split: result.splits)
  let ?acc = "acc @ [SecretAdd S (PriShare S pripoly n i) ds]"
  have k': "k = nat (n - (i + 1))" using Suc.prems by auto
  have la: "length ?acc = nat (i + 1)" using Suc.prems(4) nn by (simp add: nat_add_distrib)
  from Suc.IH [OF k' _ _ la rec] lt nn
  have len: "length secs = nat n"
    and tk: "take (nat (i + 1)) secs = ?acc"
    and rest: "\<forall>j. nat (i + 1) \<le> j \<and> j < nat n \<longrightarrow>
            (\<exists>ds. diffieHellmanSecret S (PointMul S (ins ! j) longSecret) = Ok ds \<and>
                  secs ! j = SecretAdd S (PriShare S pripoly n (int j)) ds)"
    by auto
  have suc: "nat (i + 1) = Suc (nat i)" using nn by (simp add: nat_add_distrib)
  have tk': "take (nat i) secs = acc"
  proof -
    have "take (nat i) secs = take (nat i) (take (nat (i + 1)) secs)"
      by (simp add: suc min_def)
    also have "\<dots> = acc" using tk Suc.prems(4) by simp
    finally show ?thesis .
  qed
  have at_i: "secs ! nat i = SecretAdd S (PriShare S pripoly n i) ds"
  proof -
    have "secs ! nat i = take (nat (i + 1)) secs ! nat i" by (simp add: suc)
    also have "\<dots> = ?acc ! nat i" using tk by simp
    also have "\<dots> = SecretAdd S (PriShare S pripoly n i) ds"
      using Suc.prems(4) by (simp add: nth_append)
    finally show ?thesis .
  qed
  have all: "\<forall>j. nat i \<le> j \<and> j < nat n \<longrightarrow>
            (\<exists>ds. diffieHellmanSecret S (PointMul S (ins ! j) longSecret) = Ok ds \<and>
                  secs ! j = SecretAdd S (PriShare S pripoly n (int j)) ds)"
  proof (intro allI impI)
    fix j assume j: "nat i \<le> j \<and> j < nat n"
    show "\<exists>ds. diffieHellmanSecret S (PointMul S (ins ! j) longSecret) = Ok ds \<and>
                  secs ! j = SecretAdd S (PriShare S pripoly n (int j)) ds"
    proof (cases "j = nat i")
      case True
      then show ?thesis using ds at_i nn by auto
    next
      case False
      then have "nat (i + 1) \<le> j \<and> j < nat n" using j suc by simp
      then show ?thesis using rest by blast
    qed
  qed
  show ?case using len tk' all by simp
qed


text \<open>
  C6: on a Promise with \<open>n\<close> insurers and \<open>n\<close> secrets, \<^verbatim>\<open>VerifyShare\<close> returns
  nil exactly when \<open>0 \<le> i < n\<close>, \<open>insurers[i]\<close> is the key pair's public key, and
  \<open>secrets[i]\<close> minus the hash-to-scalar of \<open>pubKey \<cdot> kp.Secret\<close> passes the
  public-polynomial check at \<open>i\<close>. For a Promise that \<^verbatim>\<open>ConstructPromise\<close>
  returned, it returns nil at every index \<open>i < n\<close> for the key pair of insurer \<open>i\<close>,
  given the contracts of the consumed layers: the Diffie-Hellman points of the two
  sides agree, subtraction undoes addition, and the public polynomial committed to
  the private one accepts the share that \<^verbatim>\<open>Split\<close> produced for \<open>i\<close>.
\<close>

theorem VerifyShare_spec:
  "(int (length (insurers p)) = p_n p \<and> int (length (secrets p)) = p_n p \<longrightarrow>
      (VerifyShare p i kp = Ok () \<longleftrightarrow>
         0 \<le> i \<and> i < p_n p \<and> insurers p ! nat i = Public kp \<and>
         (\<exists>ds. diffieHellmanSecret (p_suite p) (PointMul (p_suite p) (pubKey p) (Secret kp)) = Ok ds \<and>
               PubPolyCheck (p_suite p) (pubPoly p) i (SecretSub (p_suite p) (secrets p ! nat i) ds)))) \<and>
   (ConstructPromise secretPair longPair t r ins = Ok p \<and>
    0 \<le> i \<and> i < int (length ins) \<and> Public kp = ins ! nat i \<and>
    PointMul (Suite secretPair) (ins ! nat i) (Secret longPair)
      = PointMul (Suite secretPair) (Public longPair) (Secret kp) \<and>
    (\<forall>a b. SecretSub (Suite secretPair) (SecretAdd (Suite secretPair) a b) b = a) \<and>
    (\<forall>pripoly. PriPolyPick (Suite secretPair) t (Secret secretPair) = Some pripoly \<longrightarrow>
       PubPolyCheck (Suite secretPair) (PubPolyCommit (Suite secretPair) pripoly) i
         (PriShare (Suite secretPair) pripoly (int (length ins)) i))
    \<longrightarrow> VerifyShare p i kp = Ok ())"
proof (intro conjI impI)
  assume wf: "int (length (insurers p)) = p_n p \<and> int (length (secrets p)) = p_n p"
  show "VerifyShare p i kp = Ok () \<longleftrightarrow>
         0 \<le> i \<and> i < p_n p \<and> insurers p ! nat i = Public kp \<and>
         (\<exists>ds. diffieHellmanSecret (p_suite p) (PointMul (p_suite p) (pubKey p) (Secret kp)) = Ok ds \<and>
               PubPolyCheck (p_suite p) (pubPoly p) i (SecretSub (p_suite p) (secrets p ! nat i) ds))"
  proof (cases "0 \<le> i \<and> i < p_n p")
    case False
    then show ?thesis by (auto simp: VerifyShare_def)
  next
    case True
    then have "go_index (insurers p) i = Some (insurers p ! nat i)"
      and "go_index (secrets p) i = Some (secrets p ! nat i)"
      using wf by simp_all
    then show ?thesis
      using True by (auto simp: VerifyShare_def split: result.splits)
  qed
next
  let ?S = "Suite secretPair"
  let ?n = "int (length ins)"
  assume h: "ConstructPromise secretPair longPair t r ins = Ok p \<and>
    0 \<le> i \<and> i < int (length ins) \<and> Public kp = ins ! nat i \<and>
    PointMul ?S (ins ! nat i) (Secret longPair) = PointMul ?S (Public longPair) (Secret kp) \<and>
    (\<forall>a b. SecretSub ?S (SecretAdd ?S a b) b = a) \<and>
    (\<forall>pripoly. PriPolyPick ?S t (Secret secretPair) = Some pripoly \<longrightarrow>
       PubPolyCheck ?S (PubPolyCommit ?S pripoly) i (PriShare ?S pripoly ?n i))"
  then obtain pripoly secs where
    pick: "PriPolyPick ?S t (Secret secretPair) = Some pripoly"
    and enc: "encryptShares ?S ins (Secret longPair) pripoly ?n 0 [] = Ok secs"
    and p: "p = \<lparr> p_id = PointString ?S (Public secretPair), p_suite = ?S,
                   p_t = t, p_r = r, p_n = ?n, pubKey = Public longPair,
                   pubPoly = PubPolyCommit ?S pripoly, insurers = ins, secrets = secs \<rparr>"
    by (auto simp: ConstructPromise_def Let_def split: if_splits option.splits result.splits)
  from encryptShares_Ok [OF refl refl _ _ _ enc]
  have len: "length secs = length ins"
    and each: "\<forall>j. j < length ins \<longrightarrow>
            (\<exists>ds. diffieHellmanSecret ?S (PointMul ?S (ins ! j) (Secret longPair)) = Ok ds \<and>
                  secs ! j = SecretAdd ?S (PriShare ?S pripoly ?n (int j)) ds)"
    by auto
  from h have i: "0 \<le> i" "i < ?n" by auto
  then have "nat i < length ins" by simp
  with each obtain ds where
    ds: "diffieHellmanSecret ?S (PointMul ?S (ins ! nat i) (Secret longPair)) = Ok ds"
    and si: "secs ! nat i = SecretAdd ?S (PriShare ?S pripoly ?n (int (nat i))) ds"
    by blast
  have ds': "diffieHellmanSecret ?S (PointMul ?S (Public longPair) (Secret kp)) = Ok ds"
    using ds h by simp
  have share: "SecretSub ?S (secs ! nat i) ds = PriShare ?S pripoly ?n i"
    using si h i by simp
  have chk: "PubPolyCheck ?S (PubPolyCommit ?S pripoly) i (PriShare ?S pripoly ?n i)"
    using h pick by blast
  have gi: "go_index ins i = Some (ins ! nat i)" using i by simp
  have gs: "go_index secs i = Some (secs ! nat i)" using i len by simp
  show "VerifyShare p i kp = Ok ()"
    using i h gi gs ds' share chk
    by (simp add: VerifyShare_def p)
qed


lemma demo_construct:
  "ConstructPromise demo_secretPair demo_longPair 1 2 [3, 5] = Ok demo_promise"
  by (simp add: ConstructPromise_def Let_def encryptShares.simps diffieHellmanSecret_def
        go_index_def demo_defs)

theorem VerifyShare_spec_witness:
  "ConstructPromise demo_secretPair demo_longPair 1 2 [3, 5] = Ok demo_promise \<and>
   Public demo_insurer1 = [3, 5] ! nat 1 \<and>
   PointMul demo_suite ([3, 5] ! nat 1) (Secret demo_longPair)
     = PointMul demo_suite (Public demo_longPair) (Secret demo_insurer1) \<and>
   VerifyShare demo_promise 1 demo_insurer1 = Ok () \<and>
   VerifyShare demo_bad_promise 1 demo_insurer1 \<noteq> Ok ()"
proof -
  have key: "Public demo_insurer1 = [3, 5] ! nat 1"
    by (simp add: demo_defs)
  have dh: "PointMul demo_suite ([3, 5] ! nat 1) (Secret demo_longPair)
              = PointMul demo_suite (Public demo_longPair) (Secret demo_insurer1)"
    by (simp add: demo_defs)
  have cancel: "\<forall>a b. SecretSub demo_suite (SecretAdd demo_suite a b) b = a"
    by (simp add: demo_suite_def)
  have poly: "\<forall>pripoly. PriPolyPick demo_suite 1 (Secret demo_secretPair) = Some pripoly \<longrightarrow>
       PubPolyCheck demo_suite (PubPolyCommit demo_suite pripoly) 1
         (PriShare demo_suite pripoly (int (length [3::byte, 5])) 1)"
    by (simp add: demo_defs)
  have suite: "Suite demo_secretPair = demo_suite"
    by (simp add: demo_secretPair_def)
  have good: "VerifyShare demo_promise 1 demo_insurer1 = Ok ()"
    using VerifyShare_spec [where p = demo_promise and i = 1 and kp = demo_insurer1
        and secretPair = demo_secretPair and longPair = demo_longPair and t = 1 and r = 2
        and ins = "[3, 5]"]
      demo_construct key dh cancel poly suite
    by simp
  have bad: "VerifyShare demo_bad_promise 1 demo_insurer1 \<noteq> Ok ()"
    using VerifyShare_spec [where p = demo_bad_promise and i = 1 and kp = demo_insurer1
        and secretPair = demo_secretPair and longPair = demo_longPair and t = 1 and r = 2
        and ins = "[3, 5]"]
    by (simp add: diffieHellmanSecret_def demo_defs)
  from demo_construct key dh good bad show ?thesis by blast
qed

section \<open>Theorems: package vss\<close>

lemma foldl_count:
  "foldl (\<lambda>c (idx, r). if P r then c + 1 else c) (c0 :: int) xs
     = c0 + int (length (filter (\<lambda>(idx, r). P r) xs))"
  by (induction xs arbitrary: c0) (auto split: prod.splits)

lemma card_status_set:
  assumes "distinct (map fst xs)"
  shows "card {i. \<exists>r. map_of xs i = Some r \<and> P r} = length (filter (\<lambda>(idx, r). P r) xs)"
proof -
  let ?ys = "filter (\<lambda>(idx, r). P r) xs"
  have "{i. \<exists>r. map_of xs i = Some r \<and> P r} = fst ` set ?ys"
    using assms by (auto simp: map_of_eq_Some_iff image_iff)
  also have "\<dots> = set (map fst ?ys)" by simp
  finally have "card {i. \<exists>r. map_of xs i = Some r \<and> P r} = card (set (map fst ?ys))" by simp
  also have "\<dots> = length (map fst ?ys)"
    using assms by (intro distinct_card) (simp add: distinct_map_filter)
  finally show ?thesis by simp
qed

lemma VerifyDeal_state:
  "snd (VerifyDeal a d inclusion) = (if a_deal a \<noteq> None \<and> inclusion then a else bindDeal a d)"
  by (simp add: VerifyDeal_def Let_def split: option.splits)

lemma bindDeal_bound [simp]: "a_deal a \<noteq> None \<Longrightarrow> bindDeal a d = a"
  by (auto simp: bindDeal_def)

lemma bindDeal_responses [simp]: "a_responses (bindDeal a d) = a_responses a"
  by (simp add: bindDeal_def)

lemma verifyJustification_ok:
  assumes "verifyJustification a j = (None, a')"
  shows "\<exists>r. map_of (a_responses a) (j_Index j) = Some r \<and> r_Status r = StatusComplaint \<and>
             a_responses a' = AList.update (j_Index j) (r \<lparr> r_Status := statusJustified \<rparr>) (a_responses a)"
proof -
  from assms obtain r where r: "map_of (a_responses a) (j_Index j) = Some r"
    by (auto simp: verifyJustification_def split: option.splits)
  from assms r have st: "r_Status r = StatusComplaint"
    by (auto simp: verifyJustification_def split: option.splits if_splits)
  obtain e a1 where vd: "VerifyDeal a (j_Deal j) False = (e, a1)" by (cases "VerifyDeal a (j_Deal j) False")
  then have a1: "a1 = bindDeal a (j_Deal j)" using VerifyDeal_state [of a "j_Deal j" False] by simp
  from assms r st vd have "e = None"
    and "a' = a1 \<lparr> a_responses := AList.update (j_Index j) (r \<lparr> r_Status := statusJustified \<rparr>) (a_responses a1) \<rparr>"
    by (auto simp: verifyJustification_def split: option.splits if_splits)
  then show ?thesis using r st a1 by simp
qed

text \<open>
  C3: \<^verbatim>\<open>DealCertified\<close> is true exactly when the number of stored responses with
  status Approval is at least \<open>t\<close>, \<^verbatim>\<open>badDealer\<close> is false and the number of stored
  responses with status Complaint is below \<open>t\<close> (\<^verbatim>\<open>EnoughApprovals\<close> being the first
  of the three). A response with status \<^verbatim>\<open>statusJustified\<close> is in neither count, and
  a justification that succeeds takes its response out of the complaints without
  adding it to the approvals. The keys of \<^verbatim>\<open>responses\<close> are distinct, as in any map.
\<close>

theorem DealCertified_spec:
  assumes "distinct (map fst (a_responses a))"
  shows "(DealCertified a \<longleftrightarrow>
            a_t a \<le> int (card (approvals a)) \<and> \<not> a_badDealer a \<and> int (card (complaints a)) < a_t a) \<and>
         (EnoughApprovals a \<longleftrightarrow> a_t a \<le> int (card (approvals a))) \<and>
         (\<forall>i r. map_of (a_responses a) i = Some r \<and> r_Status r = statusJustified
            \<longrightarrow> i \<notin> approvals a \<and> i \<notin> complaints a) \<and>
         (\<forall>j a'. verifyJustification a j = (None, a')
            \<longrightarrow> j_Index j \<in> complaints a \<and> approvals a' = approvals a \<and>
                complaints a' = complaints a - {j_Index j})"
proof (intro conjI allI impI)
  have app: "int (card (approvals a))
      = foldl (\<lambda>app (idx, r). if r_Status r = StatusApproval then app + 1 else app) 0 (a_responses a)"
    unfolding approvals_def using card_status_set [OF assms, of "\<lambda>r. r_Status r = StatusApproval"]
    by (simp add: foldl_count)
  have comp: "int (card (complaints a))
      = foldl (\<lambda>comps (idx, r). if r_Status r = StatusComplaint then comps + 1 else comps) 0 (a_responses a)"
    unfolding complaints_def using card_status_set [OF assms, of "\<lambda>r. r_Status r = StatusComplaint"]
    by (simp add: foldl_count)
  show ea: "EnoughApprovals a \<longleftrightarrow> a_t a \<le> int (card (approvals a))"
    by (simp add: EnoughApprovals_def Let_def app)
  show "DealCertified a \<longleftrightarrow>
            a_t a \<le> int (card (approvals a)) \<and> \<not> a_badDealer a \<and> int (card (complaints a)) < a_t a"
    unfolding DealCertified_def Let_def ea comp by auto
next
  fix i r
  assume "map_of (a_responses a) i = Some r \<and> r_Status r = statusJustified"
  then show "i \<notin> approvals a" "i \<notin> complaints a"
    by (auto simp: approvals_def complaints_def statusJustified_def StatusApproval_def StatusComplaint_def)
next
  fix j a'
  assume ok: "verifyJustification a j = (None, a')"
  from verifyJustification_ok [OF ok] obtain r where
    r: "map_of (a_responses a) (j_Index j) = Some r" "r_Status r = StatusComplaint"
    and a': "a_responses a' = AList.update (j_Index j) (r \<lparr> r_Status := statusJustified \<rparr>) (a_responses a)"
    by blast
  show "j_Index j \<in> complaints a" using r by (auto simp: complaints_def)
  show "approvals a' = approvals a"
    using r by (auto simp: approvals_def a' update_conv' statusJustified_def StatusApproval_def
                  StatusComplaint_def split: if_splits)
  show "complaints a' = complaints a - {j_Index j}"
    using r by (auto simp: complaints_def a' update_conv' statusJustified_def StatusComplaint_def
                  split: if_splits)
qed











lemma VerifyDeal_error_kind:
  "a_deal a = None \<or> \<not> inclusion \<Longrightarrow> fst (VerifyDeal a d inclusion) \<noteq> Some ErrDealAlreadyProcessed"
  by (auto simp: VerifyDeal_def Let_def split: option.splits)





text \<open>The keys of \<^verbatim>\<open>responses\<close> stay distinct.\<close>

lemma newAggregator_distinct:
  "distinct (map fst (a_responses (newAggregator S dealer verifiers commitments t sid)))"
  by (simp add: newAggregator_def)

lemma addResponse_distinct:
  "distinct (map fst (a_responses a)) \<Longrightarrow> distinct (map fst (a_responses (snd (addResponse a r))))"
  by (auto simp: addResponse_def map_of_eq_None_iff split: option.splits)

lemma verifyResponse_distinct:
  "distinct (map fst (a_responses a)) \<Longrightarrow> distinct (map fst (a_responses (snd (verifyResponse a r))))"
  by (auto simp: verifyResponse_def addResponse_distinct split: option.splits)

lemma VerifyDeal_responses: "a_responses (snd (VerifyDeal a d inclusion)) = a_responses a"
  by (simp add: VerifyDeal_state)

lemma verifyJustification_distinct:
  assumes "distinct (map fst (a_responses a))"
  shows "distinct (map fst (a_responses (snd (verifyJustification a j))))"
proof -
  obtain e1 a1 where vd: "VerifyDeal a (j_Deal j) False = (e1, a1)"
    by (cases "VerifyDeal a (j_Deal j) False")
  then have "a_responses a1 = a_responses a"
    using VerifyDeal_responses [of a "j_Deal j" False] by simp
  then show ?thesis
    using assms vd
    by (auto simp: verifyJustification_def distinct_update split: option.splits)
qed

theorem DealCertified_spec_witness:
  "distinct (map fst (a_responses demo_counting_agg)) \<and>
   DealCertified demo_counting_agg \<and>
   a_t demo_counting_agg \<le> int (card (approvals demo_counting_agg)) \<and>
   int (card (complaints demo_counting_agg)) < a_t demo_counting_agg \<and>
   map_of (a_responses demo_counting_agg) 3 = Some (demo_response 3 statusJustified) \<and>
   3 \<notin> approvals demo_counting_agg \<and> 3 \<notin> complaints demo_counting_agg"
proof -
  have d: "distinct (map fst (a_responses demo_counting_agg))"
    by (simp add: demo_counting_agg_def)
  have c: "DealCertified demo_counting_agg"
    by (simp add: DealCertified_def EnoughApprovals_def Let_def demo_counting_agg_def
          demo_response_def StatusApproval_def StatusComplaint_def statusJustified_def)
  have m: "map_of (a_responses demo_counting_agg) 3 = Some (demo_response 3 statusJustified)"
    by (simp add: demo_counting_agg_def)
  have st: "r_Status (demo_response 3 statusJustified) = statusJustified"
    by (simp add: demo_response_def)
  from DealCertified_spec [OF d] c m st show ?thesis
    using d by blast
qed





section \<open>Theorems: the wire codecs\<close>

lemma getUint32_putUint32: "getUint32 (putUint32 w @ rest) = Some w"
proof -
  have "(ucast (ucast w :: byte) :: 32 word) OR push_bit 8 (ucast (ucast (drop_bit 8 w) :: byte))
          OR push_bit 16 (ucast (ucast (drop_bit 16 w) :: byte))
          OR push_bit 24 (ucast (ucast (drop_bit 24 w) :: byte)) = w"
  proof (rule bit_word_eqI)
    fix n assume "n < LENGTH(32)"
    then consider "n < 8" | "8 \<le> n \<and> n < 16" | "16 \<le> n \<and> n < 24" | "24 \<le> n \<and> n < 32"
      by fastforce
    then show "bit ((ucast (ucast w :: byte) :: 32 word) OR push_bit 8 (ucast (ucast (drop_bit 8 w) :: byte))
          OR push_bit 16 (ucast (ucast (drop_bit 16 w) :: byte))
          OR push_bit 24 (ucast (ucast (drop_bit 24 w) :: byte))) n = bit w n"
      by cases (auto simp: bit_simps)
  qed
  then show ?thesis
    by (simp add: getUint32_def putUint32_def)
qed

lemma int_uint32_roundtrip:
  "0 \<le> x \<Longrightarrow> x < 2 ^ 32 \<Longrightarrow> int_of_uint32 (uint32_of_int x) = x"
  by (simp add: int_of_uint32_def uint32_of_int_def uint_word_of_int take_bit_eq_mod)

lemma int_of_uint32_range: "0 \<le> int_of_uint32 w \<and> int_of_uint32 w < 2 ^ 32"
  using uint_lt2p [of w] by (simp add: int_of_uint32_def)



lemma andThen_Ok [simp]: "andThen (Ok x) f = f x"
  by (simp add: andThen_def)

lemma go_make_Ok [simp]: "0 \<le> n \<Longrightarrow> go_make n = Ok (replicate (nat n) 0)"
  by (simp add: go_make_def)

lemma copy_at_zeros:
  "lo = int (length w) \<Longrightarrow> length src \<le> k \<Longrightarrow>
     copy_at (w @ replicate k 0) lo src = Ok (w @ src @ replicate (k - length src) 0)"
  by (simp add: copy_at_def)

lemma go_slice_mid:
  "lo = int (length w) \<Longrightarrow> hi = lo + int (length x) \<Longrightarrow> go_slice (w @ x @ rest) lo hi = Ok x"
  by (simp add: go_slice_def)

lemma putUint32_length [simp]: "length (putUint32 x) = 4"
  by (simp add: putUint32_def)

lemma putUint32_at_zeros:
  "lo = int (length w) \<Longrightarrow> 4 \<le> k \<Longrightarrow>
     putUint32_at (w @ replicate k 0) lo x = Ok (w @ putUint32 x @ replicate (k - 4) 0)"
  by (simp add: putUint32_at_def go_slice_from_def go_slice_def copy_at_zeros)

lemma uint32_at_mid:
  "lo = int (length w) \<Longrightarrow> uint32_at (w @ putUint32 x @ rest) lo = Ok x"
  by (simp add: uint32_at_def go_slice_from_def go_slice_def getUint32_putUint32)


lemma slice_len_bytes: "slice_len s = int (length (slice_bytes s))"
  by (simp add: slice_len_def slice_bytes_def split: option.splits)

lemma PromiseSignature_marshal:
  "PromiseSignature_MarshalBinary sg
     = Ok (putUint32 (uint32_of_int (slice_len (signature sg))) @ slice_bytes (signature sg))"
proof -
  let ?b = "slice_bytes (signature sg)"
  let ?x = "uint32_of_int (slice_len (signature sg))"
  have size: "PromiseSignature_MarshalSize sg = int (4 + length ?b)"
    by (simp add: PromiseSignature_MarshalSize_def uint32Size_def slice_len_bytes)
  have m: "go_make (PromiseSignature_MarshalSize sg) = Ok ([] @ replicate (4 + length ?b) 0)"
    unfolding size by (simp add: go_make_def)
  have p: "putUint32_at ([] @ replicate (4 + length ?b) 0) 0 ?x
             = Ok ([] @ putUint32 ?x @ replicate (4 + length ?b - 4) 0)"
    by (rule putUint32_at_zeros) simp_all
  have c: "copy_at (putUint32 ?x @ replicate (length ?b) 0) uint32Size ?b
             = Ok (putUint32 ?x @ ?b @ replicate (length ?b - length ?b) 0)"
    by (rule copy_at_zeros) (simp_all add: uint32Size_def)
  show ?thesis
    unfolding PromiseSignature_MarshalBinary_def m
    using p c by simp
qed

lemma PromiseSignature_unmarshal:
  assumes "length b < 2 ^ 32"
  shows "PromiseSignature_UnmarshalBinary sg0 (putUint32 (uint32_of_int (int (length b))) @ b)
           = Ok (sg0 \<lparr> signature := Some b \<rparr>)"
proof -
  let ?x = "uint32_of_int (int (length b))"
  have len: "int_of_uint32 ?x = int (length b)"
    using assms by (intro int_uint32_roundtrip) simp_all
  have u: "uint32_at ([] @ putUint32 ?x @ b) 0 = Ok ?x"
    by (rule uint32_at_mid) simp
  have g: "go_slice (putUint32 ?x @ b @ []) uint32Size (uint32Size + int (length b)) = Ok b"
    by (rule go_slice_mid) (simp_all add: uint32Size_def)
  show ?thesis
    unfolding PromiseSignature_UnmarshalBinary_def
    using u g by (simp add: len Let_def uint32Size_def)
qed


lemma copy_at_next:
  "lo = int (length w) \<Longrightarrow>
     copy_at (w @ replicate (length src + k) 0) lo src = Ok ((w @ src) @ replicate k 0)"
  using copy_at_zeros [of lo w src "length src + k"] by simp

lemma putUint32_at_next:
  "lo = int (length w) \<Longrightarrow>
     putUint32_at (w @ replicate (4 + k) 0) lo x = Ok ((w @ putUint32 x) @ replicate k 0)"
  using putUint32_at_zeros [of lo w "4 + k" x] by simp

lemma BlameProof_marshal:
  assumes pk: "PointMarshalBinary (bp_suite bp) (diffieKey bp) = Inr pkb"
    and pl: "PointLen (bp_suite bp) = int (length pkb)"
  shows "BlameProof_MarshalBinary bp
           = Ok (putUint32 (uint32_of_int (slice_len (diffieKeyProof bp)))
                 @ putUint32 (uint32_of_int (PromiseSignature_MarshalSize (bp_signature bp)))
                 @ pkb @ slice_bytes (diffieKeyProof bp)
                 @ putUint32 (uint32_of_int (slice_len (signature (bp_signature bp))))
                 @ slice_bytes (signature (bp_signature bp)))"
proof -
  let ?pf = "slice_bytes (diffieKeyProof bp)"
  let ?sg = "slice_bytes (signature (bp_signature bp))"
  let ?x1 = "uint32_of_int (slice_len (diffieKeyProof bp))"
  let ?x2 = "uint32_of_int (PromiseSignature_MarshalSize (bp_signature bp))"
  let ?sigBuf = "putUint32 (uint32_of_int (slice_len (signature (bp_signature bp)))) @ ?sg"
  let ?N = "4 + (4 + (length pkb + (length ?pf + (length ?sigBuf + 0))))"
  have size: "BlameProof_MarshalSize bp = int ?N"
    by (simp add: BlameProof_MarshalSize_def PromiseSignature_MarshalSize_def uint32Size_def
          slice_len_bytes pl)
  have s0: "go_make (BlameProof_MarshalSize bp) = Ok ([] @ replicate ?N 0)"
    unfolding size by (simp add: go_make_def)
  have s1: "putUint32_at ([] @ replicate ?N 0) 0 ?x1
      = Ok (([] @ putUint32 ?x1)
            @ replicate (4 + (length pkb + (length ?pf + (length ?sigBuf + 0)))) 0)"
    by (rule putUint32_at_next) simp
  have s2: "putUint32_at (([] @ putUint32 ?x1)
              @ replicate (4 + (length pkb + (length ?pf + (length ?sigBuf + 0)))) 0) uint32Size ?x2
      = Ok ((([] @ putUint32 ?x1) @ putUint32 ?x2)
            @ replicate (length pkb + (length ?pf + (length ?sigBuf + 0))) 0)"
    by (rule putUint32_at_next) (simp add: uint32Size_def)
  have s3: "copy_at ((([] @ putUint32 ?x1) @ putUint32 ?x2)
              @ replicate (length pkb + (length ?pf + (length ?sigBuf + 0))) 0) (2 * uint32Size) pkb
      = Ok (((([] @ putUint32 ?x1) @ putUint32 ?x2) @ pkb)
            @ replicate (length ?pf + (length ?sigBuf + 0)) 0)"
    by (rule copy_at_next) (simp add: uint32Size_def)
  have s4: "copy_at (((([] @ putUint32 ?x1) @ putUint32 ?x2) @ pkb)
              @ replicate (length ?pf + (length ?sigBuf + 0)) 0)
              (2 * uint32Size + PointLen (bp_suite bp)) ?pf
      = Ok ((((([] @ putUint32 ?x1) @ putUint32 ?x2) @ pkb) @ ?pf)
            @ replicate (length ?sigBuf + 0) 0)"
    by (rule copy_at_next) (simp add: uint32Size_def pl)
  have s5: "copy_at ((((([] @ putUint32 ?x1) @ putUint32 ?x2) @ pkb) @ ?pf)
              @ replicate (length ?sigBuf + 0) 0)
              (2 * uint32Size + PointLen (bp_suite bp) + slice_len (diffieKeyProof bp)) ?sigBuf
      = Ok (((((([] @ putUint32 ?x1) @ putUint32 ?x2) @ pkb) @ ?pf) @ ?sigBuf)
            @ replicate 0 0)"
    by (rule copy_at_next) (simp add: uint32Size_def pl slice_len_bytes)
  show ?thesis
    unfolding BlameProof_MarshalBinary_def Let_def s0
    by (simp only: andThen_Ok s1 s2 s3 s4 s5 pk external_def sum.case PromiseSignature_marshal)
       simp
qed


lemma BlameProof_unmarshal:
  assumes dec: "PointUnmarshalBinary (bp_suite bp0) pkb = Inr dk"
    and pl: "PointLen (bp_suite bp0) = int (length pkb)"
    and lp: "length pf < 2 ^ 32"
    and ls: "4 + length sg < 2 ^ 32"
  shows "BlameProof_UnmarshalBinary bp0
           (putUint32 (uint32_of_int (int (length pf)))
            @ putUint32 (uint32_of_int (int (4 + length sg)))
            @ pkb @ pf @ putUint32 (uint32_of_int (int (length sg))) @ sg)
         = Ok (bp0 \<lparr> diffieKey := dk, diffieKeyProof := Some pf,
                     bp_signature := \<lparr> sig_suite = bp_suite bp0, signature = Some sg \<rparr> \<rparr>)"
proof -
  let ?x1 = "uint32_of_int (int (length pf))"
  let ?x2 = "uint32_of_int (int (4 + length sg))"
  let ?sigBuf = "putUint32 (uint32_of_int (int (length sg))) @ sg"
  let ?buf = "putUint32 ?x1 @ putUint32 ?x2 @ pkb @ pf @ ?sigBuf"
  have l1: "int_of_uint32 ?x1 = int (length pf)"
    using lp by (intro int_uint32_roundtrip) simp_all
  have l2: "int_of_uint32 ?x2 = int (4 + length sg)"
    using ls by (intro int_uint32_roundtrip) simp_all
  have len: "int (length ?buf) = 8 + int (length pkb) + int (length pf) + (4 + int (length sg))"
    by simp
  have u1: "uint32_at ?buf 0 = Ok ?x1"
    using uint32_at_mid [of 0 "[]" "?x1"] by simp
  have u2: "uint32_at ?buf uint32Size = Ok ?x2"
    using uint32_at_mid [of uint32Size "putUint32 ?x1" "?x2"] by (simp add: uint32Size_def)
  have g1: "go_slice ?buf (2 * uint32Size) (2 * uint32Size + PointLen (bp_suite bp0)) = Ok pkb"
    using go_slice_mid [of "2 * uint32Size" "putUint32 ?x1 @ putUint32 ?x2" _ pkb "pf @ ?sigBuf"]
    by (simp add: uint32Size_def pl)
  have g2: "go_slice ?buf (2 * uint32Size + PointLen (bp_suite bp0))
              (2 * uint32Size + PointLen (bp_suite bp0) + int (length pf)) = Ok pf"
    using go_slice_mid [of "2 * uint32Size + PointLen (bp_suite bp0)"
                           "putUint32 ?x1 @ putUint32 ?x2 @ pkb" _ pf "?sigBuf"]
    by (simp add: uint32Size_def pl)
  have g3: "go_slice ?buf (2 * uint32Size + PointLen (bp_suite bp0) + int (length pf))
              (2 * uint32Size + PointLen (bp_suite bp0) + int (length pf) + int (4 + length sg))
            = Ok ?sigBuf"
    using go_slice_mid [of "2 * uint32Size + PointLen (bp_suite bp0) + int (length pf)"
                           "putUint32 ?x1 @ putUint32 ?x2 @ pkb @ pf" _ "?sigBuf" "[]"]
    by (simp add: uint32Size_def pl)
  have mk: "go_make (int (length pf)) = Ok ([] @ replicate (length pf + 0) 0)"
    by (simp add: go_make_def)
  have cp: "copy_at ([] @ replicate (length pf + 0) 0) 0 pf = Ok (([] @ pf) @ replicate 0 0)"
    by (rule copy_at_next) simp
  have sgu: "PromiseSignature_UnmarshalBinary
               (PromiseSignature_UnmarshalInit
                  \<lparr> sig_suite = bp_suite bp0, signature = None \<rparr> (bp_suite bp0)) ?sigBuf
             = Ok \<lparr> sig_suite = bp_suite bp0, signature = Some sg \<rparr>"
  proof -
    have "length sg < 2 ^ 32" using ls by simp
    from PromiseSignature_unmarshal [OF this, of "\<lparr> sig_suite = bp_suite bp0, signature = None \<rparr>"]
    show ?thesis by (simp add: PromiseSignature_UnmarshalInit_def)
  qed
  have small: "\<not> int (length ?buf) < 2 * uint32Size + PointLen (bp_suite bp0)"
    "\<not> int (length ?buf) < 2 * uint32Size + PointLen (bp_suite bp0) + int (length pf)
          + int (4 + length sg)"
    unfolding len by (simp_all add: uint32Size_def pl)
  show ?thesis
    unfolding BlameProof_UnmarshalBinary_def Let_def
    by (simp only: small if_False u1 u2 andThen_Ok l1 l2 g1 g2 g3 dec external_def sum.case
          mk cp sgu)
       simp
qed


lemma length_concat_fixed:
  "\<forall>x \<in> set xs. length (f x) = L \<Longrightarrow> length (concat (map f xs)) = length xs * L"
  by (induction xs) simp_all

lemma marshalEach_zeros:
  assumes enc: "\<forall>x \<in> set xs. enc x = Inr (f x) \<and> length (f x) = L"
    and el: "elemLen = int L"
    and bp: "bufPos = int (length w0)"
  shows "j = length xs - i \<Longrightarrow> i \<le> length xs \<Longrightarrow>
     marshalEach enc elemLen
       ((w0 @ concat (map f (take i xs))) @ replicate ((length xs - i) * L + k) 0) bufPos xs (int i)
     = Ok ((w0 @ concat (map f xs)) @ replicate k 0)"
proof (induction j arbitrary: i)
  case 0
  then have "i = length xs" by simp
  then show ?case by (simp add: marshalEach.simps)
next
  case (Suc j)
  then have lt: "i < length xs" by simp
  then have mem: "xs ! i \<in> set xs" by simp
  have e: "enc (xs ! i) = Inr (f (xs ! i))" and l: "length (f (xs ! i)) = L"
    using enc mem by auto
  have pre: "length (concat (map f (take i xs))) = i * L"
    using enc length_concat_fixed [of "take i xs" f L] lt
    by (auto dest: in_set_takeD)
  have off: "bufPos + int i * elemLen = int (length (w0 @ concat (map f (take i xs))))"
    by (simp add: bp el pre)
  have k': "(length xs - i) * L + k = length (f (xs ! i)) + ((length xs - Suc i) * L + k)"
  proof -
    have "length xs - i = Suc (length xs - Suc i)" using lt by simp
    then have "(length xs - i) * L = L + (length xs - Suc i) * L" by simp
    then show ?thesis using l by simp
  qed
  define B where "B = (w0 @ concat (map f (take i xs))) @ replicate ((length xs - i) * L + k) 0"
  define B' where
    "B' = (w0 @ concat (map f (take (Suc i) xs))) @ replicate ((length xs - Suc i) * L + k) 0"
  have tk: "(w0 @ concat (map f (take i xs))) @ f (xs ! i) = w0 @ concat (map f (take (Suc i) xs))"
    using lt by (simp add: take_Suc_conv_app_nth)
  have "copy_at ((w0 @ concat (map f (take i xs)))
                  @ replicate (length (f (xs ! i)) + ((length xs - Suc i) * L + k)) 0)
              (bufPos + int i * elemLen) (f (xs ! i))
            = Ok (((w0 @ concat (map f (take i xs))) @ f (xs ! i))
                  @ replicate ((length xs - Suc i) * L + k) 0)"
    by (rule copy_at_next) (rule off)
  then have cp: "copy_at B (bufPos + int i * elemLen) (f (xs ! i)) = Ok B'"
    unfolding B_def B'_def k' tk .
  have IH: "marshalEach enc elemLen B' bufPos xs (int (Suc i))
     = Ok ((w0 @ concat (map f xs)) @ replicate k 0)"
    unfolding B'_def using Suc.IH [of "Suc i"] Suc.prems lt by simp
  have "marshalEach enc elemLen B bufPos xs (int i) = marshalEach enc elemLen B' bufPos xs (int i + 1)"
    using lt by (subst marshalEach.simps) (simp add: e external_def cp)
  also have "int i + 1 = int (Suc i)" by simp
  finally show ?case using IH unfolding B_def by simp
qed

lemma unmarshalEach_concat:
  assumes dec: "\<forall>x \<in> set xs. dec (f x) = Inr x \<and> length (f x) = L"
    and el: "elemLen = int L"
    and bp: "bufPos = int (length w0)"
    and n: "n = int (length xs)"
  shows "j = length xs - i \<Longrightarrow> i \<le> length xs \<Longrightarrow>
     unmarshalEach dec elemLen (w0 @ concat (map f xs) @ rest) bufPos n (int i) (take i xs) = Ok xs"
proof (induction j arbitrary: i)
  case 0
  then have "i = length xs" by simp
  then show ?case using n by (simp add: unmarshalEach.simps)
next
  case (Suc j)
  then have lt: "i < length xs" by simp
  then have mem: "xs ! i \<in> set xs" by simp
  have d: "dec (f (xs ! i)) = Inr (xs ! i)" and l: "length (f (xs ! i)) = L"
    using dec mem by auto
  have pre: "length (concat (map f (take i xs))) = i * L"
    using dec length_concat_fixed [of "take i xs" f L] lt
    by (auto dest: in_set_takeD)
  have split: "w0 @ concat (map f xs) @ rest
      = (w0 @ concat (map f (take i xs))) @ f (xs ! i) @ (concat (map f (drop (Suc i) xs)) @ rest)"
  proof -
    have "xs = take i xs @ xs ! i # drop (Suc i) xs"
      using lt by (rule id_take_nth_drop)
    then have "concat (map f xs)
        = concat (map f (take i xs)) @ f (xs ! i) @ concat (map f (drop (Suc i) xs))"
      by (metis concat.simps(2) concat_append list.simps(9) map_append)
    then show ?thesis by simp
  qed
  have sl: "go_slice (w0 @ concat (map f xs) @ rest) (bufPos + int i * elemLen)
              (bufPos + int i * elemLen + elemLen) = Ok (f (xs ! i))"
    unfolding split
    by (rule go_slice_mid) (simp_all add: bp el pre l)
  have IH: "unmarshalEach dec elemLen (w0 @ concat (map f xs) @ rest) bufPos n (int (Suc i))
              (take (Suc i) xs) = Ok xs"
    using Suc.IH [of "Suc i"] Suc.prems lt by simp
  have "unmarshalEach dec elemLen (w0 @ concat (map f xs) @ rest) bufPos n (int i) (take i xs)
      = unmarshalEach dec elemLen (w0 @ concat (map f xs) @ rest) bufPos n (int i + 1)
          (take i xs @ [xs ! i])"
    using lt n
    by (subst unmarshalEach.simps) (simp add: Let_def sl d external_def)
  also have "take i xs @ [xs ! i] = take (Suc i) xs"
    using lt by (simp add: take_Suc_conv_app_nth)
  also have "int i + 1 = int (Suc i)" by simp
  finally show ?case using IH by simp
qed


lemma Promise_marshal:
  assumes pc: "\<forall>P. PointMarshalBinary (p_suite p) P = Inr (encP P) \<and> length (encP P) = LP"
    and sc: "\<forall>x. SecretMarshalBinary (p_suite p) x = Inr (encS x) \<and> length (encS x) = LS"
    and pl: "PointLen (p_suite p) = int LP"
    and sl: "SecretLen (p_suite p) = int LS"
    and poly: "PubPolyMarshalBinary (p_suite p) (pubPoly p) = Inr polyb"
    and polylen: "PubPolyMarshalSize (p_suite p) (pubPoly p) = int (length polyb)"
    and li: "int (length (insurers p)) = p_n p"
    and ls: "int (length (secrets p)) = p_n p"
  shows "Promise_MarshalBinary p
           = Ok (putUint32 (uint32_of_int (p_n p)) @ putUint32 (uint32_of_int (p_t p))
                 @ putUint32 (uint32_of_int (p_r p)) @ encP (pubKey p) @ polyb
                 @ concat (map encP (insurers p)) @ concat (map encS (secrets p)))"
proof -
  let ?S = "p_suite p"
  let ?n = "length (insurers p)"
  let ?x1 = "uint32_of_int (p_n p)"
  let ?x2 = "uint32_of_int (p_t p)"
  let ?x3 = "uint32_of_int (p_r p)"
  let ?pk = "encP (pubKey p)"
  let ?ins = "concat (map encP (insurers p))"
  let ?secs = "concat (map encS (secrets p))"
  have lsn: "length (secrets p) = ?n" using li ls by simp
  have n: "p_n p = int ?n" using li by simp
  have pk: "PointMarshalBinary ?S (pubKey p) = Inr ?pk" and lpk: "length ?pk = LP"
    using pc by auto
  define k5 where "k5 = (?n - 0) * LP + ((?n - 0) * LS + 0)"
  define k4 where "k4 = length polyb + k5"
  define k3 where "k3 = length ?pk + k4"
  define k2 where "k2 = 4 + k3"
  define k1 where "k1 = 4 + k2"
  define k0 where "k0 = 4 + k1"
  define w1 where "w1 = [] @ putUint32 ?x1"
  define w2 where "w2 = w1 @ putUint32 ?x2"
  define w3 where "w3 = w2 @ putUint32 ?x3"
  define w4 where "w4 = w3 @ ?pk"
  define w5 where "w5 = w4 @ polyb"
  define w6 where "w6 = w5 @ ?ins"
  have size: "Promise_MarshalSize p = int k0"
    by (simp add: Promise_MarshalSize_def uint32Size_def pl sl polylen n k0_def k1_def k2_def
          k3_def k4_def k5_def lpk algebra_simps)
  have s0: "go_make (Promise_MarshalSize p) = Ok ([] @ replicate k0 0)"
    unfolding size by (simp add: go_make_def)
  have s1: "putUint32_at ([] @ replicate k0 0) 0 ?x1 = Ok (w1 @ replicate k1 0)"
    unfolding k0_def w1_def by (rule putUint32_at_next) simp
  have s2: "putUint32_at (w1 @ replicate k1 0) uint32Size ?x2 = Ok (w2 @ replicate k2 0)"
    unfolding k1_def w2_def by (rule putUint32_at_next) (simp add: w1_def uint32Size_def)
  have s3: "putUint32_at (w2 @ replicate k2 0) (2 * uint32Size) ?x3 = Ok (w3 @ replicate k3 0)"
    unfolding k2_def w3_def by (rule putUint32_at_next) (simp add: w1_def w2_def uint32Size_def)
  have s4: "copy_at (w3 @ replicate k3 0) (3 * uint32Size) ?pk = Ok (w4 @ replicate k4 0)"
    unfolding k3_def w4_def
    by (rule copy_at_next) (simp add: w1_def w2_def w3_def uint32Size_def)
  have s5: "copy_at (w4 @ replicate k4 0) (3 * uint32Size + PointLen ?S) polyb
              = Ok (w5 @ replicate k5 0)"
    unfolding k4_def w5_def
    by (rule copy_at_next) (simp add: w1_def w2_def w3_def w4_def uint32Size_def pl lpk)
  have lw5: "int (length w5) = 3 * uint32Size + PointLen ?S + PubPolyMarshalSize ?S (pubPoly p)"
    by (simp add: w1_def w2_def w3_def w4_def w5_def uint32Size_def pl lpk polylen)
  have "marshalEach (PointMarshalBinary ?S) (PointLen ?S)
          ((w5 @ concat (map encP (take 0 (insurers p))))
             @ replicate ((?n - 0) * LP + ((?n - 0) * LS + 0)) 0)
          (3 * uint32Size + PointLen ?S + PubPolyMarshalSize ?S (pubPoly p)) (insurers p) (int 0)
        = Ok ((w5 @ ?ins) @ replicate ((?n - 0) * LS + 0) 0)"
    by (rule marshalEach_zeros [where f = encP and L = LP]) (use pc pl lw5 in auto)
  then have s6: "marshalEach (PointMarshalBinary ?S) (PointLen ?S) (w5 @ replicate k5 0)
          (3 * uint32Size + PointLen ?S + PubPolyMarshalSize ?S (pubPoly p)) (insurers p) 0
        = Ok (w6 @ replicate ((?n - 0) * LS + 0) 0)"
    by (simp add: k5_def w6_def)
  have lins: "length ?ins = ?n * LP"
    using pc by (intro length_concat_fixed) simp
  have lw6: "int (length w6)
      = 3 * uint32Size + PointLen ?S + PubPolyMarshalSize ?S (pubPoly p) + p_n p * PointLen ?S"
    using lw5 by (simp add: w6_def lins n pl)
  have "marshalEach (SecretMarshalBinary ?S) (SecretLen ?S)
          ((w6 @ concat (map encS (take 0 (secrets p))))
             @ replicate ((length (secrets p) - 0) * LS + 0) 0)
          (3 * uint32Size + PointLen ?S + PubPolyMarshalSize ?S (pubPoly p) + p_n p * PointLen ?S)
          (secrets p) (int 0)
        = Ok ((w6 @ ?secs) @ replicate 0 0)"
    by (rule marshalEach_zeros [where f = encS and L = LS]) (use sc sl lw6 in auto)
  then have s7: "marshalEach (SecretMarshalBinary ?S) (SecretLen ?S)
          (w6 @ replicate ((?n - 0) * LS + 0) 0)
          (3 * uint32Size + PointLen ?S + PubPolyMarshalSize ?S (pubPoly p) + p_n p * PointLen ?S)
          (secrets p) 0
        = Ok (w6 @ ?secs)"
    by (simp add: lsn)
  have "Promise_MarshalBinary p = Ok (w6 @ ?secs)"
    unfolding Promise_MarshalBinary_def Let_def s0
    by (simp only: andThen_Ok s1 s2 s3 s4 s5 s6 s7 pk poly external_def sum.case)
  then show ?thesis
    by (simp add: w1_def w2_def w3_def w4_def w5_def w6_def)
qed


lemma Promise_unmarshal:
  assumes pc: "\<forall>P. PointUnmarshalBinary (p_suite p0) (encP P) = Inr P \<and> length (encP P) = LP"
    and sc: "\<forall>x. SecretUnmarshalBinary (p_suite p0) (encS x) = Inr x \<and> length (encS x) = LS"
    and pl: "PointLen (p_suite p0) = int LP"
    and sl: "SecretLen (p_suite p0) = int LS"
    and polysize: "PubPolyInitSize (p_suite p0) t = int (length polyb)"
    and poly: "PubPolyUnmarshalBinary (p_suite p0) t polyb = Inr pp"
    and rng: "0 \<le> t" "t \<le> r" "r \<le> n" "n < 2 ^ 32"
    and li: "int (length ins) = n"
    and ls: "int (length secs) = n"
  shows "Promise_UnmarshalBinary p0
           (putUint32 (uint32_of_int n) @ putUint32 (uint32_of_int t) @ putUint32 (uint32_of_int r)
            @ encP pk @ polyb @ concat (map encP ins) @ concat (map encS secs))
         = Ok (p0 \<lparr> p_t := t, p_r := r, p_n := n, pubKey := pk, pubPoly := pp,
                     insurers := ins, secrets := secs \<rparr>)"
proof -
  let ?S = "p_suite p0"
  let ?x1 = "uint32_of_int n"
  let ?x2 = "uint32_of_int t"
  let ?x3 = "uint32_of_int r"
  let ?ins = "concat (map encP ins)"
  let ?secs = "concat (map encS secs)"
  define buf where "buf = putUint32 ?x1 @ putUint32 ?x2 @ putUint32 ?x3 @ encP pk @ polyb
                          @ ?ins @ ?secs"
  have ln: "int_of_uint32 ?x1 = n" using rng by (intro int_uint32_roundtrip) simp_all
  have lt: "int_of_uint32 ?x2 = t" using rng by (intro int_uint32_roundtrip) simp_all
  have lr: "int_of_uint32 ?x3 = r" using rng by (intro int_uint32_roundtrip) simp_all
  have lpk: "length (encP pk) = LP" using pc by simp
  have dpk: "PointUnmarshalBinary ?S (encP pk) = Inr pk" using pc by simp
  have lins: "length ?ins = length ins * LP"
    using pc by (intro length_concat_fixed) simp
  have u1: "uint32_at buf 0 = Ok ?x1"
    unfolding buf_def using uint32_at_mid [of 0 "[]" "?x1"] by simp
  have u2: "uint32_at buf uint32Size = Ok ?x2"
    unfolding buf_def using uint32_at_mid [of uint32Size "putUint32 ?x1" "?x2"]
    by (simp add: uint32Size_def)
  have u3: "uint32_at buf (2 * uint32Size) = Ok ?x3"
    unfolding buf_def
    using uint32_at_mid [of "2 * uint32Size" "putUint32 ?x1 @ putUint32 ?x2" "?x3"]
    by (simp add: uint32Size_def)
  have g1: "go_slice buf (3 * uint32Size) (3 * uint32Size + PointLen ?S) = Ok (encP pk)"
    unfolding buf_def
    using go_slice_mid [of "3 * uint32Size" "putUint32 ?x1 @ putUint32 ?x2 @ putUint32 ?x3"
                           _ "encP pk" "polyb @ ?ins @ ?secs"]
    by (simp add: uint32Size_def pl lpk)
  have g2: "go_slice buf (3 * uint32Size + PointLen ?S)
              (3 * uint32Size + PointLen ?S + PubPolyInitSize ?S t) = Ok polyb"
    unfolding buf_def
    using go_slice_mid [of "3 * uint32Size + PointLen ?S"
                           "putUint32 ?x1 @ putUint32 ?x2 @ putUint32 ?x3 @ encP pk"
                           _ polyb "?ins @ ?secs"]
    by (simp add: uint32Size_def pl lpk polysize)
  have "unmarshalEach (PointUnmarshalBinary ?S) (PointLen ?S)
          ((putUint32 ?x1 @ putUint32 ?x2 @ putUint32 ?x3 @ encP pk @ polyb) @ ?ins @ ?secs)
          (3 * uint32Size + PointLen ?S + PubPolyInitSize ?S t) n (int 0) (take 0 ins) = Ok ins"
    by (rule unmarshalEach_concat [where f = encP and L = LP])
       (use pc pl li in \<open>auto simp: uint32Size_def lpk polysize\<close>)
  then have e1: "unmarshalEach (PointUnmarshalBinary ?S) (PointLen ?S) buf
          (3 * uint32Size + PointLen ?S + PubPolyInitSize ?S t) n 0 [] = Ok ins"
    by (simp add: buf_def)
  have "unmarshalEach (SecretUnmarshalBinary ?S) (SecretLen ?S)
          ((putUint32 ?x1 @ putUint32 ?x2 @ putUint32 ?x3 @ encP pk @ polyb @ ?ins) @ ?secs @ [])
          (3 * uint32Size + PointLen ?S + PubPolyInitSize ?S t + n * PointLen ?S) n (int 0)
          (take 0 secs) = Ok secs"
    by (rule unmarshalEach_concat [where f = encS and L = LS])
       (use sc sl ls li in \<open>auto simp: uint32Size_def lpk polysize pl lins\<close>)
  then have e2: "unmarshalEach (SecretUnmarshalBinary ?S) (SecretLen ?S) buf
          (3 * uint32Size + PointLen ?S + PubPolyInitSize ?S t + n * PointLen ?S) n 0 [] = Ok secs"
    by (simp add: buf_def)
  have vp: "verifyPromise (p0 \<lparr> p_t := t, p_r := r, p_n := n, pubKey := pk, pubPoly := pp,
                     insurers := ins, secrets := secs \<rparr>) = Ok ()"
    using rng li ls by (simp add: verifyPromise_def)
  have "Promise_UnmarshalBinary p0 buf
         = Ok (p0 \<lparr> p_t := t, p_r := r, p_n := n, pubKey := pk, pubPoly := pp,
                     insurers := ins, secrets := secs \<rparr>)"
    unfolding Promise_UnmarshalBinary_def Let_def
    by (simp only: andThen_Ok u1 u2 u3 ln lt lr g1 g2 e1 e2 dpk poly external_def sum.case vp)
  then show ?thesis by (simp add: buf_def)
qed

lemma equalLoop_same:
  assumes "secrets p = secrets p2" "insurers p = insurers p2"
    and "int (length (insurers p)) = p_n p" "int (length (secrets p)) = p_n p"
  shows "j = nat (p_n p - i) \<Longrightarrow> 0 \<le> i \<Longrightarrow> equalLoop p p2 i = Ok True"
proof (induction j arbitrary: i)
  case 0
  then show ?case by (simp add: equalLoop.simps)
next
  case (Suc j)
  then have lt: "i < p_n p" by simp
  have "equalLoop p p2 (i + 1) = Ok True"
    using Suc.IH [of "i + 1"] Suc.prems by simp
  then show ?case
    using lt Suc.prems(2) assms
    by (subst equalLoop.simps) simp
qed

lemma Promise_Equal_same:
  assumes "p_suite p2 = p_suite p" "p_t p2 = p_t p" "p_r p2 = p_r p" "p_n p2 = p_n p"
    and "pubKey p2 = pubKey p" "pubPoly p2 = pubPoly p"
    and "insurers p2 = insurers p" "secrets p2 = secrets p"
    and "int (length (insurers p)) = p_n p" "int (length (secrets p)) = p_n p"
  shows "Promise_Equal p p2 = Ok True"
proof -
  have "equalLoop p p2 0 = Ok True"
    by (rule equalLoop_same [OF _ _ assms(9,10) refl]) (simp_all add: assms)
  then show ?thesis
    by (simp add: Promise_Equal_def assms)
qed



lemma point_codec_enc:
  assumes "point_codec S"
  shows "\<forall>P. PointMarshalBinary S P = Inr (projr (PointMarshalBinary S P)) \<and>
             length (projr (PointMarshalBinary S P)) = nat (PointLen S) \<and>
             PointUnmarshalBinary S (projr (PointMarshalBinary S P)) = Inr P"
    and "PointLen S = int (nat (PointLen S))"
proof -
  show "\<forall>P. PointMarshalBinary S P = Inr (projr (PointMarshalBinary S P)) \<and>
             length (projr (PointMarshalBinary S P)) = nat (PointLen S) \<and>
             PointUnmarshalBinary S (projr (PointMarshalBinary S P)) = Inr P"
  proof
    fix P
    obtain b where "PointMarshalBinary S P = Inr b" "int (length b) = PointLen S"
      "PointUnmarshalBinary S b = Inr P"
      using assms unfolding point_codec_def by blast
    then show "PointMarshalBinary S P = Inr (projr (PointMarshalBinary S P)) \<and>
             length (projr (PointMarshalBinary S P)) = nat (PointLen S) \<and>
             PointUnmarshalBinary S (projr (PointMarshalBinary S P)) = Inr P"
      by auto
  qed
  then have "length (projr (PointMarshalBinary S undefined)) = nat (PointLen S)" by blast
  moreover obtain b where "PointMarshalBinary S undefined = Inr b" "int (length b) = PointLen S"
    using assms unfolding point_codec_def by blast
  ultimately show "PointLen S = int (nat (PointLen S))" by auto
qed

lemma secret_codec_enc:
  assumes "secret_codec S"
  shows "\<forall>x. SecretMarshalBinary S x = Inr (projr (SecretMarshalBinary S x)) \<and>
             length (projr (SecretMarshalBinary S x)) = nat (SecretLen S) \<and>
             SecretUnmarshalBinary S (projr (SecretMarshalBinary S x)) = Inr x"
    and "SecretLen S = int (nat (SecretLen S))"
proof -
  show "\<forall>x. SecretMarshalBinary S x = Inr (projr (SecretMarshalBinary S x)) \<and>
             length (projr (SecretMarshalBinary S x)) = nat (SecretLen S) \<and>
             SecretUnmarshalBinary S (projr (SecretMarshalBinary S x)) = Inr x"
  proof
    fix x
    obtain b where "SecretMarshalBinary S x = Inr b" "int (length b) = SecretLen S"
      "SecretUnmarshalBinary S b = Inr x"
      using assms unfolding secret_codec_def by blast
    then show "SecretMarshalBinary S x = Inr (projr (SecretMarshalBinary S x)) \<and>
             length (projr (SecretMarshalBinary S x)) = nat (SecretLen S) \<and>
             SecretUnmarshalBinary S (projr (SecretMarshalBinary S x)) = Inr x"
      by auto
  qed
  then have "length (projr (SecretMarshalBinary S undefined)) = nat (SecretLen S)" by blast
  moreover obtain b where "SecretMarshalBinary S undefined = Inr b" "int (length b) = SecretLen S"
    using assms unfolding secret_codec_def by blast
  ultimately show "SecretLen S = int (nat (SecretLen S))" by auto
qed

lemma PromiseSignature_roundtrip_ok:
  assumes "signature sg = Some b" "length b < 2 ^ 32"
  shows "PromiseSignature_roundtrip fresh sg = Ok True"
proof -
  have m: "PromiseSignature_MarshalBinary sg = Ok (putUint32 (uint32_of_int (int (length b))) @ b)"
    using PromiseSignature_marshal [of sg] assms(1) by (simp add: slice_len_def slice_bytes_def)
  have u: "PromiseSignature_UnmarshalBinary (PromiseSignature_UnmarshalInit fresh (sig_suite sg))
             (putUint32 (uint32_of_int (int (length b))) @ b)
           = Ok ((PromiseSignature_UnmarshalInit fresh (sig_suite sg)) \<lparr> signature := Some b \<rparr>)"
    by (rule PromiseSignature_unmarshal [OF assms(2)])
  have e: "(PromiseSignature_UnmarshalInit fresh (sig_suite sg)) \<lparr> signature := Some b \<rparr> = sg"
    using assms(1) by (cases sg) (simp add: PromiseSignature_UnmarshalInit_def)
  show ?thesis
    unfolding PromiseSignature_roundtrip_def m andThen_Ok u e
    by (simp add: PromiseSignature_Equal_def)
qed

lemma BlameProof_roundtrip_ok:
  assumes pf: "diffieKeyProof bp = Some pf" "length pf < 2 ^ 32"
    and sg: "signature (bp_signature bp) = Some sg" "4 + length sg < 2 ^ 32"
    and su: "sig_suite (bp_signature bp) = bp_suite bp"
    and pc: "point_codec (bp_suite bp)"
  shows "BlameProof_roundtrip fresh bp = Ok True"
proof -
  let ?S = "bp_suite bp"
  let ?pkb = "projr (PointMarshalBinary ?S (diffieKey bp))"
  from point_codec_enc [OF pc]
  have enc: "PointMarshalBinary ?S (diffieKey bp) = Inr ?pkb"
    and len: "PointLen ?S = int (length ?pkb)"
    and dec: "PointUnmarshalBinary ?S ?pkb = Inr (diffieKey bp)"
    by auto
  have m: "BlameProof_MarshalBinary bp
       = Ok (putUint32 (uint32_of_int (int (length pf)))
             @ putUint32 (uint32_of_int (int (4 + length sg)))
             @ ?pkb @ pf @ putUint32 (uint32_of_int (int (length sg))) @ sg)"
    using BlameProof_marshal [OF enc len] pf(1) sg(1)
    by (simp add: slice_len_def slice_bytes_def PromiseSignature_MarshalSize_def uint32Size_def)
  have u: "BlameProof_UnmarshalBinary (BlameProof_UnmarshalInit fresh ?S)
             (putUint32 (uint32_of_int (int (length pf)))
              @ putUint32 (uint32_of_int (int (4 + length sg)))
              @ ?pkb @ pf @ putUint32 (uint32_of_int (int (length sg))) @ sg)
           = Ok ((BlameProof_UnmarshalInit fresh ?S)
                   \<lparr> diffieKey := diffieKey bp, diffieKeyProof := Some pf,
                     bp_signature := \<lparr> sig_suite = ?S, signature = Some sg \<rparr> \<rparr>)"
    using BlameProof_unmarshal [of "BlameProof_UnmarshalInit fresh ?S" ?pkb "diffieKey bp" pf sg]
      dec len pf(2) sg(2)
    by (simp add: BlameProof_UnmarshalInit_def)
  have s: "bp_signature bp = \<lparr> sig_suite = ?S, signature = Some sg \<rparr>"
    using sg(1) su by (cases "bp_signature bp") simp
  show ?thesis
    unfolding BlameProof_roundtrip_def m andThen_Ok u
    by (simp add: BlameProof_Equal_def PromiseSignature_Equal_def BlameProof_UnmarshalInit_def
          pf(1) s)
qed

lemma Promise_roundtrip_ok:
  assumes rng: "0 \<le> p_t m" "p_t m \<le> p_r m" "p_r m \<le> p_n m" "p_n m < 2 ^ 32"
    and li: "int (length (insurers m)) = p_n m"
    and ls: "int (length (secrets m)) = p_n m"
    and pc: "point_codec (p_suite m)"
    and sc: "secret_codec (p_suite m)"
    and oc: "poly_codec (p_suite m) (p_t m) (pubPoly m)"
  shows "Promise_roundtrip fresh m = Ok True"
proof -
  let ?S = "p_suite m"
  let ?encP = "\<lambda>P. projr (PointMarshalBinary ?S P)"
  let ?encS = "\<lambda>x. projr (SecretMarshalBinary ?S x)"
  let ?p0 = "UnmarshalInit fresh ?S"
  have s0: "p_suite ?p0 = ?S" by (simp add: UnmarshalInit_def)
  from oc obtain polyb where
    pm: "PubPolyMarshalBinary ?S (pubPoly m) = Inr polyb"
    and ps: "PubPolyMarshalSize ?S (pubPoly m) = int (length polyb)"
    and pi: "PubPolyInitSize ?S (p_t m) = int (length polyb)"
    and pu: "PubPolyUnmarshalBinary ?S (p_t m) polyb = Inr (pubPoly m)"
    unfolding poly_codec_def by blast
  note P = point_codec_enc [OF pc]
  note X = secret_codec_enc [OF sc]
  have mar: "Promise_MarshalBinary m
           = Ok (putUint32 (uint32_of_int (p_n m)) @ putUint32 (uint32_of_int (p_t m))
                 @ putUint32 (uint32_of_int (p_r m)) @ ?encP (pubKey m) @ polyb
                 @ concat (map ?encP (insurers m)) @ concat (map ?encS (secrets m)))"
    by (rule Promise_marshal [where LP = "nat (PointLen ?S)" and LS = "nat (SecretLen ?S)"])
       (use P X pm ps li ls in auto)
  have unm: "Promise_UnmarshalBinary ?p0
           (putUint32 (uint32_of_int (p_n m)) @ putUint32 (uint32_of_int (p_t m))
                 @ putUint32 (uint32_of_int (p_r m)) @ ?encP (pubKey m) @ polyb
                 @ concat (map ?encP (insurers m)) @ concat (map ?encS (secrets m)))
         = Ok (?p0 \<lparr> p_t := p_t m, p_r := p_r m, p_n := p_n m, pubKey := pubKey m,
                      pubPoly := pubPoly m, insurers := insurers m, secrets := secrets m \<rparr>)"
    by (rule Promise_unmarshal [where LP = "nat (PointLen ?S)" and LS = "nat (SecretLen ?S)"])
       (use P X pi pu li ls rng s0 in auto)
  have eq: "Promise_Equal m
              (?p0 \<lparr> p_t := p_t m, p_r := p_r m, p_n := p_n m, pubKey := pubKey m,
                      pubPoly := pubPoly m, insurers := insurers m, secrets := secrets m \<rparr>)
            = Ok True"
    by (rule Promise_Equal_same) (simp_all add: UnmarshalInit_def li ls)
  show ?thesis
    unfolding Promise_roundtrip_def mar by (simp add: unm eq)
qed



lemma andThen_eq_Ok: "andThen m f = Ok y \<longleftrightarrow> (\<exists>x. m = Ok x \<and> f x = Ok y)"
  by (cases m) (simp_all add: andThen_def)

text \<open>
  C9, as the code has it: unmarshalling the output of \<^verbatim>\<open>MarshalBinary\<close> into a value
  initialised with \<^verbatim>\<open>UnmarshalInit\<close> on the same suite succeeds and gives a value
  that \<^verbatim>\<open>Equal\<close> accepts, for
  \<^item> a PromiseSignature whose signature is not nil and shorter than \<open>2^32\<close> bytes;
  \<^item> a BlameProof whose proof and signature are not nil, whose proof length and
    marshalled signature size are below \<open>2^32\<close>, and whose signature carries the
    suite of the BlameProof;
  \<^item> a Promise with \<open>0 \<le> t \<le> r \<le> n < 2^32\<close> and \<open>n\<close> insurers and secrets;
  given the contracts of the point, secret and polynomial codecs of the suite.
\<close>

theorem marshal_roundtrip:
  "(signature sg \<noteq> None \<and> slice_len (signature sg) < 2 ^ 32
      \<longrightarrow> PromiseSignature_roundtrip fresh_sg sg = Ok True) \<and>
   (diffieKeyProof bp \<noteq> None \<and> slice_len (diffieKeyProof bp) < 2 ^ 32 \<and>
    signature (bp_signature bp) \<noteq> None \<and> PromiseSignature_MarshalSize (bp_signature bp) < 2 ^ 32 \<and>
    sig_suite (bp_signature bp) = bp_suite bp \<and> point_codec (bp_suite bp)
      \<longrightarrow> BlameProof_roundtrip fresh_bp bp = Ok True) \<and>
   (0 \<le> p_t m \<and> p_t m \<le> p_r m \<and> p_r m \<le> p_n m \<and> p_n m < 2 ^ 32 \<and>
    int (length (insurers m)) = p_n m \<and> int (length (secrets m)) = p_n m \<and>
    point_codec (p_suite m) \<and> secret_codec (p_suite m) \<and>
    poly_codec (p_suite m) (p_t m) (pubPoly m)
      \<longrightarrow> Promise_roundtrip fresh m = Ok True)"
proof (intro conjI impI)
  assume "signature sg \<noteq> None \<and> slice_len (signature sg) < 2 ^ 32"
  then obtain b where "signature sg = Some b" "length b < 2 ^ 32"
    by (auto simp: slice_len_def)
  then show "PromiseSignature_roundtrip fresh_sg sg = Ok True"
    by (rule PromiseSignature_roundtrip_ok)
next
  assume h: "diffieKeyProof bp \<noteq> None \<and> slice_len (diffieKeyProof bp) < 2 ^ 32 \<and>
    signature (bp_signature bp) \<noteq> None \<and> PromiseSignature_MarshalSize (bp_signature bp) < 2 ^ 32 \<and>
    sig_suite (bp_signature bp) = bp_suite bp \<and> point_codec (bp_suite bp)"
  then obtain pf sb where pf: "diffieKeyProof bp = Some pf" "length pf < 2 ^ 32"
    and sb: "signature (bp_signature bp) = Some sb" "4 + length sb < 2 ^ 32"
    by (auto simp: slice_len_def PromiseSignature_MarshalSize_def uint32Size_def)
  from pf sb h show "BlameProof_roundtrip fresh_bp bp = Ok True"
    by (intro BlameProof_roundtrip_ok [of bp pf sb]) simp_all
next
  assume "0 \<le> p_t m \<and> p_t m \<le> p_r m \<and> p_r m \<le> p_n m \<and> p_n m < 2 ^ 32 \<and>
    int (length (insurers m)) = p_n m \<and> int (length (secrets m)) = p_n m \<and>
    point_codec (p_suite m) \<and> secret_codec (p_suite m) \<and>
    poly_codec (p_suite m) (p_t m) (pubPoly m)"
  then show "Promise_roundtrip fresh m = Ok True"
    by (intro Promise_roundtrip_ok) simp_all
qed

lemma demo_codecs:
  "point_codec demo_suite" "secret_codec demo_suite" "poly_codec demo_suite 1 [9]"
  by (simp_all add: point_codec_def secret_codec_def poly_codec_def demo_suite_def)

theorem marshal_roundtrip_witness:
  "PromiseSignature_roundtrip demo_nil_sig demo_sig0 = Ok True \<and>
   BlameProof_roundtrip demo_blame1 demo_blame1 = Ok True \<and>
   Promise_roundtrip demo_bad_promise demo_promise = Ok True"
proof -
  have l1: "length sigMsg = 17" and l2: "length sigBlameMsg = 23"
    by (simp_all add: sigMsg_def sigBlameMsg_def bytes_of_def)
  have a: "signature demo_sig0 \<noteq> None \<and> slice_len (signature demo_sig0) < 2 ^ 32"
    by (simp add: demo_sig0_def slice_len_def l1)
  have b: "diffieKeyProof demo_blame1 \<noteq> None \<and> slice_len (diffieKeyProof demo_blame1) < 2 ^ 32 \<and>
    signature (bp_signature demo_blame1) \<noteq> None \<and>
    PromiseSignature_MarshalSize (bp_signature demo_blame1) < 2 ^ 32 \<and>
    sig_suite (bp_signature demo_blame1) = bp_suite demo_blame1 \<and>
    point_codec (bp_suite demo_blame1)"
    using demo_codecs(1)
    by (simp add: demo_blame1_def slice_len_def PromiseSignature_MarshalSize_def uint32Size_def l2)
  have c: "0 \<le> p_t demo_promise \<and> p_t demo_promise \<le> p_r demo_promise \<and>
    p_r demo_promise \<le> p_n demo_promise \<and> p_n demo_promise < 2 ^ 32 \<and>
    int (length (insurers demo_promise)) = p_n demo_promise \<and>
    int (length (secrets demo_promise)) = p_n demo_promise \<and>
    point_codec (p_suite demo_promise) \<and> secret_codec (p_suite demo_promise) \<and>
    poly_codec (p_suite demo_promise) (p_t demo_promise) (pubPoly demo_promise)"
    using demo_codecs by (simp add: demo_promise_def)
  from marshal_roundtrip [of demo_sig0 demo_nil_sig demo_blame1 demo_blame1 demo_promise
      demo_bad_promise] a b c
  show ?thesis by blast
qed

lemma demo_negative_t_roundtrip:
  "Promise_roundtrip demo_promise demo_negative_t_promise = Panic PanicSlice"
proof -
  let ?m = "demo_negative_t_promise"
  have mar: "Promise_MarshalBinary ?m
           = Ok (putUint32 (uint32_of_int (p_n ?m)) @ putUint32 (uint32_of_int (p_t ?m))
                 @ putUint32 (uint32_of_int (p_r ?m)) @ (\<lambda>P. [P]) (pubKey ?m) @ []
                 @ concat (map (\<lambda>P. [P]) (insurers ?m)) @ concat (map (\<lambda>x. [x]) (secrets ?m)))"
    by (rule Promise_marshal [where LP = 1 and LS = 1])
       (simp_all add: demo_negative_t_promise_def demo_suite_def)
  define buf where "buf = putUint32 (uint32_of_int 0) @ putUint32 (uint32_of_int (- 1))
                 @ putUint32 (uint32_of_int 0) @ [7 :: byte]"
  have mar': "Promise_MarshalBinary ?m = Ok buf"
    unfolding mar buf_def by (simp add: demo_negative_t_promise_def)
  have len: "length buf = 13" by (simp add: buf_def)
  have u1: "uint32_at buf 0 = Ok (uint32_of_int 0)"
    unfolding buf_def using uint32_at_mid [of 0 "[]" "uint32_of_int 0"] by simp
  have u2: "uint32_at buf uint32Size = Ok (uint32_of_int (- 1))"
    unfolding buf_def
    using uint32_at_mid [of uint32Size "putUint32 (uint32_of_int 0)" "uint32_of_int (- 1)"]
    by (simp add: uint32Size_def)
  have u3: "uint32_at buf (2 * uint32Size) = Ok (uint32_of_int 0)"
    unfolding buf_def
    using uint32_at_mid [of "2 * uint32Size"
            "putUint32 (uint32_of_int 0) @ putUint32 (uint32_of_int (- 1))" "uint32_of_int 0"]
    by (simp add: uint32Size_def)
  have t: "int_of_uint32 (uint32_of_int (- 1)) = 4294967295"
    by (simp add: int_of_uint32_def uint32_of_int_def unsigned_minus_1_eq_mask mask_eq_exp_minus_1)
  define p0 where "p0 = UnmarshalInit demo_promise (p_suite ?m)"
  have pl: "PointLen (p_suite p0) = 1"
    and ps: "PubPolyInitSize (p_suite p0) (int_of_uint32 (uint32_of_int (- 1))) = 4294967295"
    and pu: "PointUnmarshalBinary (p_suite p0) [7] = Inr 7"
    by (simp_all add: p0_def UnmarshalInit_def demo_negative_t_promise_def demo_suite_def t)
  have g1: "go_slice buf (3 * uint32Size) (3 * uint32Size + PointLen (p_suite p0)) = Ok [7]"
    unfolding buf_def pl
    using go_slice_mid [of "3 * uint32Size"
        "putUint32 (uint32_of_int 0) @ putUint32 (uint32_of_int (- 1)) @ putUint32 (uint32_of_int 0)"
        _ "[7]" "[]"]
    by (simp add: uint32Size_def)
  have g2: "go_slice buf (3 * uint32Size + PointLen (p_suite p0))
              (3 * uint32Size + PointLen (p_suite p0)
                 + PubPolyInitSize (p_suite p0) (int_of_uint32 (uint32_of_int (- 1))))
            = Panic PanicSlice"
    unfolding pl ps by (simp add: go_slice_def len uint32Size_def)
  have "Promise_UnmarshalBinary p0 buf = Panic PanicSlice"
    unfolding Promise_UnmarshalBinary_def Let_def
    by (simp only: u1 u2 u3 andThen_Ok g1 g2 pu external_def sum.case)
       (simp add: andThen_def)
  then show ?thesis
    unfolding Promise_roundtrip_def mar' p0_def by (simp add: andThen_def)
qed

text \<open>
  C9 as stated fails: a PromiseSignature whose signature is nil is marshalled to
  four zero bytes, which unmarshal to the empty, non-nil signature; \<^verbatim>\<open>Equal\<close>
  tells the two apart. So does a Promise with \<open>t = -1 \<le> r \<le> n\<close>, whose \<open>t\<close> is
  written as \<open>2^32 - 1\<close>: unmarshalling its encoding does not return.
\<close>

theorem marshal_roundtrip_counterexample:
  "PromiseSignature_MarshalBinary demo_nil_sig = Ok [0, 0, 0, 0] \<and>
   PromiseSignature_UnmarshalBinary
     (PromiseSignature_UnmarshalInit demo_sig0 (sig_suite demo_nil_sig)) [0, 0, 0, 0]
     = Ok \<lparr> sig_suite = demo_suite, signature = Some [] \<rparr> \<and>
   \<not> PromiseSignature_Equal demo_nil_sig \<lparr> sig_suite = demo_suite, signature = Some [] \<rparr> \<and>
   PromiseSignature_roundtrip demo_sig0 demo_nil_sig = Ok False \<and>
   p_t demo_negative_t_promise \<le> p_r demo_negative_t_promise \<and>
   p_r demo_negative_t_promise \<le> p_n demo_negative_t_promise \<and>
   int (length (insurers demo_negative_t_promise)) = p_n demo_negative_t_promise \<and>
   int (length (secrets demo_negative_t_promise)) = p_n demo_negative_t_promise \<and>
   Promise_roundtrip demo_promise demo_negative_t_promise = Panic PanicSlice"
proof -
  have z: "putUint32 (uint32_of_int 0) = [0, 0, 0, 0]"
    by (simp add: putUint32_def uint32_of_int_def)
  have m: "PromiseSignature_MarshalBinary demo_nil_sig = Ok [0, 0, 0, 0]"
    using PromiseSignature_marshal [of demo_nil_sig]
    by (simp add: demo_nil_sig_def slice_len_def slice_bytes_def z)
  have u: "PromiseSignature_UnmarshalBinary
     (PromiseSignature_UnmarshalInit demo_sig0 (sig_suite demo_nil_sig)) [0, 0, 0, 0]
     = Ok \<lparr> sig_suite = demo_suite, signature = Some [] \<rparr>"
    using PromiseSignature_unmarshal [of "[]"
        "PromiseSignature_UnmarshalInit demo_sig0 (sig_suite demo_nil_sig)"]
    by (simp add: z PromiseSignature_UnmarshalInit_def demo_sig0_def demo_nil_sig_def)
  have e: "\<not> PromiseSignature_Equal demo_nil_sig \<lparr> sig_suite = demo_suite, signature = Some [] \<rparr>"
    by (simp add: PromiseSignature_Equal_def demo_nil_sig_def)
  have r: "PromiseSignature_roundtrip demo_sig0 demo_nil_sig = Ok False"
    unfolding PromiseSignature_roundtrip_def m andThen_Ok u using e by simp
  have w: "p_t demo_negative_t_promise \<le> p_r demo_negative_t_promise \<and>
   p_r demo_negative_t_promise \<le> p_n demo_negative_t_promise \<and>
   int (length (insurers demo_negative_t_promise)) = p_n demo_negative_t_promise \<and>
   int (length (secrets demo_negative_t_promise)) = p_n demo_negative_t_promise"
    by (simp add: demo_negative_t_promise_def)
  from m u e r w demo_negative_t_roundtrip show ?thesis by blast
qed

text \<open>
  C4, as the code has it: a Promise that \<^verbatim>\<open>ConstructPromise\<close> returns satisfies
  \<open>t \<le> r \<le> n\<close> with \<open>n = len(insurers) = len(secrets)\<close>, and so does a Promise that
  \<^verbatim>\<open>UnmarshalBinary\<close> accepts, for which also \<open>0 \<le> t\<close>. Neither checks \<open>1 \<le> t\<close>.
\<close>

theorem Promise_invariant:
  "(ConstructPromise secretPair longPair t r ins = Ok p \<longrightarrow>
      p_t p \<le> p_r p \<and> p_r p \<le> p_n p \<and>
      int (length (insurers p)) = p_n p \<and> int (length (secrets p)) = p_n p) \<and>
   (Promise_UnmarshalBinary p0 buf = Ok p \<longrightarrow>
      0 \<le> p_t p \<and> p_t p \<le> p_r p \<and> p_r p \<le> p_n p \<and>
      int (length (insurers p)) = p_n p \<and> int (length (secrets p)) = p_n p)"
proof (rule conjI; rule impI)
  let ?S = "Suite secretPair"
  let ?n = "int (length ins)"
  assume c: "ConstructPromise secretPair longPair t r ins = Ok p"
  then have g: "t \<le> r" "r \<le> ?n"
    by (auto simp: ConstructPromise_def Let_def split: if_splits)
  from c obtain pripoly secs where
    enc: "encryptShares ?S ins (Secret longPair) pripoly ?n 0 [] = Ok secs"
    and p: "p = \<lparr> p_id = PointString ?S (Public secretPair), p_suite = ?S,
                   p_t = t, p_r = r, p_n = ?n, pubKey = Public longPair,
                   pubPoly = PubPolyCommit ?S pripoly, insurers = ins, secrets = secs \<rparr>"
    by (auto simp: ConstructPromise_def Let_def split: if_splits option.splits result.splits)
  from encryptShares_Ok [OF refl refl _ _ _ enc]
  have len: "length secs = length ins" by auto
  show "p_t p \<le> p_r p \<and> p_r p \<le> p_n p \<and>
      int (length (insurers p)) = p_n p \<and> int (length (secrets p)) = p_n p"
    using g len by (simp add: p)
next
  assume u: "Promise_UnmarshalBinary p0 buf = Ok p"
  then obtain wt where vp: "verifyPromise p = Ok ()" and t: "p_t p = int_of_uint32 wt"
    by (auto simp: Promise_UnmarshalBinary_def Let_def andThen_eq_Ok)
  have "0 \<le> p_t p" using t int_of_uint32_range [of wt] by simp
  moreover from vp have "p_t p \<le> p_r p \<and> p_r p \<le> p_n p \<and>
      int (length (insurers p)) = p_n p \<and> int (length (secrets p)) = p_n p"
    by (auto simp: verifyPromise_def split: if_splits)
  ultimately show "0 \<le> p_t p \<and> p_t p \<le> p_r p \<and> p_r p \<le> p_n p \<and>
      int (length (insurers p)) = p_n p \<and> int (length (secrets p)) = p_n p"
    by simp
qed

lemma demo_unmarshal_t0:
  "Promise_UnmarshalBinary (UnmarshalInit demo_promise demo_suite) demo_t0_buffer
     = Ok demo_t0_promise"
proof -
  have z: "putUint32 (uint32_of_int 0) = [0, 0, 0, 0]" "putUint32 (uint32_of_int 1) = [1, 0, 0, 0]"
    by (simp_all add: putUint32_def uint32_of_int_def)
  have "Promise_UnmarshalBinary (UnmarshalInit demo_promise demo_suite)
          (putUint32 (uint32_of_int 1) @ putUint32 (uint32_of_int 0) @ putUint32 (uint32_of_int 1)
           @ (\<lambda>P. [P]) 7 @ [] @ concat (map (\<lambda>P. [P]) [3]) @ concat (map (\<lambda>x. [x]) [30]))
        = Ok ((UnmarshalInit demo_promise demo_suite)
                \<lparr> p_t := 0, p_r := 1, p_n := 1, pubKey := 7, pubPoly := [],
                  insurers := [3], secrets := [30] \<rparr>)"
    by (rule Promise_unmarshal [where LP = 1 and LS = 1])
       (simp_all add: UnmarshalInit_def demo_promise_def demo_suite_def)
  then show ?thesis
    by (simp add: z demo_t0_buffer_def demo_t0_promise_def UnmarshalInit_def demo_promise_def)
qed

theorem Promise_invariant_witness:
  "ConstructPromise demo_secretPair demo_longPair 1 2 [3, 5] = Ok demo_promise \<and>
   p_t demo_promise \<le> p_r demo_promise \<and> p_r demo_promise \<le> p_n demo_promise \<and>
   int (length (insurers demo_promise)) = p_n demo_promise \<and>
   int (length (secrets demo_promise)) = p_n demo_promise \<and>
   Promise_UnmarshalBinary (UnmarshalInit demo_promise demo_suite) demo_t0_buffer
     = Ok demo_t0_promise \<and>
   0 \<le> p_t demo_t0_promise \<and> p_t demo_t0_promise \<le> p_r demo_t0_promise \<and>
   p_r demo_t0_promise \<le> p_n demo_t0_promise"
  using Promise_invariant [of demo_secretPair demo_longPair 1 2 "[3, 5]" demo_promise
          "UnmarshalInit demo_promise demo_suite" demo_t0_buffer]
        Promise_invariant [of demo_secretPair demo_longPair 1 2 "[3, 5]" demo_t0_promise
          "UnmarshalInit demo_promise demo_suite" demo_t0_buffer]
        demo_construct demo_unmarshal_t0
  by simp

text \<open>
  C4 as stated fails: \<^verbatim>\<open>UnmarshalBinary\<close> accepts a buffer with \<open>t = 0\<close>.
\<close>

theorem Promise_invariant_counterexample:
  "Promise_UnmarshalBinary (UnmarshalInit demo_promise demo_suite) demo_t0_buffer
     = Ok demo_t0_promise \<and>
   p_t demo_t0_promise = 0 \<and> \<not> 1 \<le> p_t demo_t0_promise"
  using demo_unmarshal_t0 by (simp add: demo_t0_promise_def)

end
